(* ===== verification/Prelude.thy ===== *)
theory Prelude
  imports Main
begin

text \<open>
  Shared vocabulary of the development. Python code that mutates objects and may raise
  is modelled in an exception-and-state monad: a computation takes the state and returns
  either an exception (\<open>Inl\<close>) or a value (\<open>Inr\<close>), together with the state reached.
  The state is returned in both cases because a Python exception does not undo the
  mutations and the output that happened before it was raised. The theory also holds
  \<open>join\<close> (Python's \<open>sep.join\<close>) and the named collections the component
  theories feed.
\<close>

named_theorems exc_simps "evaluation rules of the exception-and-state monad"
named_theorems frame_simps "frame facts: what an operation leaves unchanged"

type_synonym ('s, 'e, 'a) exc = "'s \<Rightarrow> ('e + 'a) \<times> 's"

definition ret :: "'a \<Rightarrow> ('s, 'e, 'a) exc" where
  "ret a s = (Inr a, s)"

definition throw :: "'e \<Rightarrow> ('s, 'e, 'a) exc" where
  "throw e s = (Inl e, s)"

text \<open>A pure computation that may raise, run without touching the state.\<close>

definition liftE :: "'e + 'a \<Rightarrow> ('s, 'e, 'a) exc" where
  "liftE r s = (r, s)"

definition bindE :: "('s, 'e, 'a) exc \<Rightarrow> ('a \<Rightarrow> ('s, 'e, 'b) exc) \<Rightarrow> ('s, 'e, 'b) exc" where
  "bindE m f s = (case m s of (Inl e, s') \<Rightarrow> (Inl e, s') | (Inr a, s') \<Rightarrow> f a s')"

text \<open>Binding a pure fallible value: the sum-type counterpart of \<open>bindE\<close>.\<close>

fun sbind :: "'e + 'a \<Rightarrow> ('a \<Rightarrow> 'e + 'b) \<Rightarrow> 'e + 'b" where
  "sbind (Inl e) f = Inl e"
| "sbind (Inr a) f = f a"

fun join :: "string \<Rightarrow> string list \<Rightarrow> string" where
  "join sep [] = []"
| "join sep [s] = s"
| "join sep (s # ss) = s @ sep @ join sep ss"

subsection \<open>Monad laws and evaluation rules\<close>

lemma ret_apply [exc_simps]: "ret a s = (Inr a, s)"
  by (simp add: ret_def)

lemma throw_apply [exc_simps]: "throw e s = (Inl e, s)"
  by (simp add: throw_def)

lemma liftE_apply [exc_simps]: "liftE r s = (r, s)"
  by (simp add: liftE_def)

lemma bindE_Inr [exc_simps]: "m s = (Inr a, s') \<Longrightarrow> bindE m f s = f a s'"
  by (simp add: bindE_def)

lemma bindE_Inl [exc_simps]: "m s = (Inl e, s') \<Longrightarrow> bindE m f s = (Inl e, s')"
  by (simp add: bindE_def)

lemma bindE_ret [exc_simps]: "bindE (ret a) f = f a"
  by (simp add: bindE_def ret_def fun_eq_iff)

lemma bindE_throw [exc_simps]: "bindE (throw e) f = throw e"
  by (simp add: bindE_def throw_def fun_eq_iff)

lemma bindE_liftE_Inr [exc_simps]: "bindE (liftE (Inr a)) f = f a"
  by (simp add: bindE_def liftE_def fun_eq_iff)

lemma bindE_liftE_Inl [exc_simps]: "bindE (liftE (Inl e)) f = throw e"
  by (simp add: bindE_def liftE_def throw_def fun_eq_iff)

lemma bindE_assoc: "bindE (bindE m f) g = bindE m (\<lambda>a. bindE (f a) g)"
  by (simp add: bindE_def fun_eq_iff split: prod.splits sum.splits)

lemma bindE_Inr_ret: "bindE m ret = m"
  by (simp add: bindE_def ret_def fun_eq_iff split: prod.splits sum.splits)

text \<open>
  Inversion: a bound computation that returns a value ran both halves to completion.
  The state-independent statement is what the component proofs use to peel a chain of
  \<open>bindE\<close> one step at a time.
\<close>

lemma bindE_eq_Inr:
  "bindE m f s = (Inr b, s'') \<longleftrightarrow> (\<exists>a s'. m s = (Inr a, s') \<and> f a s' = (Inr b, s''))"
  by (auto simp: bindE_def split: prod.splits sum.splits)

lemma sbind_eq_Inr [simp]: "sbind r f = Inr b \<longleftrightarrow> (\<exists>a. r = Inr a \<and> f a = Inr b)"
  by (cases r) auto

lemma sbind_eq_Inl [simp]: "sbind r f = Inl e \<longleftrightarrow> r = Inl e \<or> (\<exists>a. r = Inr a \<and> f a = Inl e)"
  by (cases r) auto

lemma sbind_case: "sbind r f = (case r of Inl e \<Rightarrow> Inl e | Inr a \<Rightarrow> f a)"
  by (cases r) auto

lemma sbind_cong [fundef_cong]:
  "r = r' \<Longrightarrow> (\<And>a. r' = Inr a \<Longrightarrow> f a = g a) \<Longrightarrow> sbind r f = sbind r' g"
  by (cases r) auto

lemma sbind_Inr_ret [simp]: "sbind r Inr = r"
  by (cases r) auto

lemma fst_eq_pair: "fst p = a \<Longrightarrow> \<exists>s. p = (a, s)"
  by (cases p) simp

subsection \<open>Lists\<close>

lemma join_Cons_Cons [simp]: "join sep (s # t # ts) = s @ sep @ join sep (t # ts)"
  by simp

lemma map_prod_snd_fst [simp]: "map fst (map (\<lambda>(k, v). (k, f k v)) xs) = map fst xs"
  by (induction xs) auto

lemma map_update_same: "i < length xs \<Longrightarrow> (map f xs)[i := f (xs ! i)] = map f xs"
  by (metis length_map list_update_id nth_map)

lemma list_all_update: "list_all P xs \<Longrightarrow> P x \<Longrightarrow> list_all P (xs[i := x])"
  by (auto simp: list_all_iff dest!: set_update_subset_insert [THEN subsetD])

lemma list_update_nth_other [frame_simps]:
  "j \<noteq> i \<Longrightarrow> xs[i := x] ! j = xs ! j"
  by simp

end
