(* ===== verification/PyValue.thy ===== *)
theory PyValue
  imports Prelude
begin

text \<open>
  The part of the Python object model that \<open>predefined_cypher/node.py\<close> relies on.
  The values reaching the node are JSON-like (the LangGraph state and the query
  parameters extracted by the language model): \<open>None\<close>, booleans, ints, strings,
  lists and dicts. Dicts are mutable objects that can be shared, so they live in a heap
  (a list of dict objects indexed by address) and a value refers to a dict by its
  address. A dict object is its list of entries in insertion order, as CPython keeps
  them. Lists are values: the node never mutates a list that it did not create.
  Key equality follows Python: \<open>True == 1\<close> and \<open>False == 0\<close> with equal hashes, so
  they denote the same key (\<open>key_norm\<close>); a list or dict as a key raises
  \<open>TypeError\<close>. Floats are not modelled.
\<close>

type_synonym addr = nat

datatype pyval =
    VNone
  | VBool bool
  | VInt int
  | VStr string
  | VList "pyval list"
  | VDict addr

type_synonym dictobj = "(pyval \<times> pyval) list"
type_synonym heap = "dictobj list"

text \<open>
  Exceptions the modelled code can raise, with Python's message text.
  \<open>DatabaseError\<close> stands for whatever the Neo4j wrapper raises.
  \<open>InvalidAddr\<close> is a reference outside the heap: Python has no such thing, and
  \<open>wf_heap\<close> below excludes it.
\<close>

datatype exn =
    TypeError string
  | AttributeError string
  | ValueError string
  | RuntimeError string
  | DatabaseError string
  | InvalidAddr addr

record pystate =
  mem :: heap
  stdout :: string

type_synonym 'a pym = "(pystate, exn, 'a) exc"

fun type_name :: "pyval \<Rightarrow> string" where
  "type_name VNone = ''NoneType''"
| "type_name (VBool _) = ''bool''"
| "type_name (VInt _) = ''int''"
| "type_name (VStr _) = ''str''"
| "type_name (VList _) = ''list''"
| "type_name (VDict _) = ''dict''"

fun hashable :: "pyval \<Rightarrow> bool" where
  "hashable (VList _) = False"
| "hashable (VDict _) = False"
| "hashable _ = True"

fun key_norm :: "pyval \<Rightarrow> pyval" where
  "key_norm (VBool b) = VInt (if b then 1 else 0)"
| "key_norm v = v"

definition quoted :: "string \<Rightarrow> string" where
  "quoted s = CHR 0x27 # s @ [CHR 0x27]"

definition unhashable_error :: "pyval \<Rightarrow> exn" where
  "unhashable_error k = TypeError (''unhashable type: '' @ quoted (type_name k))"

definition no_attribute_error :: "pyval \<Rightarrow> string \<Rightarrow> exn" where
  "no_attribute_error v attr =
     AttributeError (quoted (type_name v) @ '' object has no attribute '' @ quoted attr)"

subsection \<open>Heap access and dict operations\<close>

definition heap_obj :: "heap \<Rightarrow> addr \<Rightarrow> exn + dictobj" where
  "heap_obj h a = (if a < length h then Inr (h ! a) else Inl (InvalidAddr a))"

text \<open>\<open>x.get\<close>, \<open>x.items\<close>: attribute lookup succeeds on a dict only.\<close>

definition dict_method :: "pyval \<Rightarrow> string \<Rightarrow> exn + addr" where
  "dict_method v attr = (case v of VDict a \<Rightarrow> Inr a | _ \<Rightarrow> Inl (no_attribute_error v attr))"

fun dict_find :: "dictobj \<Rightarrow> pyval \<Rightarrow> pyval option" where
  "dict_find [] k = None"
| "dict_find ((k', v) # d) k = (if key_norm k' = key_norm k then Some v else dict_find d k)"

text \<open>\<open>d.get(k, default)\<close> on the dict at address \<open>a\<close>.\<close>

definition dict_get :: "heap \<Rightarrow> addr \<Rightarrow> pyval \<Rightarrow> pyval \<Rightarrow> exn + pyval" where
  "dict_get h a k dflt =
     (if \<not> hashable k then Inl (unhashable_error k)
      else sbind (heap_obj h a) (\<lambda>d. Inr (case dict_find d k of None \<Rightarrow> dflt | Some v \<Rightarrow> v)))"

text \<open>
  \<open>d[k] = v\<close>: an existing entry keeps its position and its original key object and
  takes the new value; a new key is appended.
\<close>

fun dict_store :: "dictobj \<Rightarrow> pyval \<Rightarrow> pyval \<Rightarrow> dictobj" where
  "dict_store [] k v = [(k, v)]"
| "dict_store ((k', v') # d) k v =
     (if key_norm k' = key_norm k then (k', v) # d else (k', v') # dict_store d k v)"

definition dict_setitem :: "heap \<Rightarrow> addr \<Rightarrow> pyval \<Rightarrow> pyval \<Rightarrow> exn + heap" where
  "dict_setitem h a k v =
     (if \<not> hashable k then Inl (unhashable_error k)
      else sbind (heap_obj h a) (\<lambda>d. Inr (h[a := dict_store d k v])))"

text \<open>\<open>dict()\<close> and \<open>{}\<close>: a fresh empty dict at the next free address.\<close>

definition alloc_dict :: "addr pym" where
  "alloc_dict s = (Inr (length (mem s)), s\<lparr>mem := mem s @ [[]]\<rparr>)"

subsection \<open>Well-formed heaps\<close>

text \<open>
  Every reference points into the heap, every key is hashable, and no two keys of a dict
  are equal in Python's sense. CPython guarantees all three; the model proves that the
  node's operations keep them.
\<close>

fun wf_val :: "heap \<Rightarrow> pyval \<Rightarrow> bool" where
  "wf_val h (VList vs) = list_all (wf_val h) vs"
| "wf_val h (VDict a) = (a < length h)"
| "wf_val h _ = True"

definition wf_dict :: "heap \<Rightarrow> dictobj \<Rightarrow> bool" where
  "wf_dict h d \<longleftrightarrow>
     list_all (\<lambda>(k, v). hashable k \<and> wf_val h k \<and> wf_val h v) d \<and>
     distinct (map (key_norm \<circ> fst) d)"

definition wf_heap :: "heap \<Rightarrow> bool" where
  "wf_heap h \<longleftrightarrow> list_all (wf_dict h) h"

text \<open>The abstract view of a dict: a finite map from normalised keys to values.\<close>

definition dict_abs :: "dictobj \<Rightarrow> pyval \<rightharpoonup> pyval" where
  "dict_abs d = map_of (map (\<lambda>(k, v). (key_norm k, v)) d)"

subsection \<open>Reachability\<close>

text \<open>
  The objects a value can reach through list elements and dict entries. \<open>repr\<close>
  reads exactly these, so an update elsewhere cannot change what \<open>str()\<close> returns.
\<close>

inductive reaches :: "heap \<Rightarrow> pyval \<Rightarrow> addr \<Rightarrow> bool" where
  ref: "reaches h (VDict a) a"
| elem: "v \<in> set vs \<Longrightarrow> reaches h v a \<Longrightarrow> reaches h (VList vs) a"
| entry_key: "b < length h \<Longrightarrow> (k, v) \<in> set (h ! b) \<Longrightarrow> reaches h k a \<Longrightarrow> reaches h (VDict b) a"
| entry_val: "b < length h \<Longrightarrow> (k, v) \<in> set (h ! b) \<Longrightarrow> reaches h v a \<Longrightarrow> reaches h (VDict b) a"

text \<open>
  The references a value holds directly (through nested lists), and an executable
  sufficient condition for the absence of cycles: every object refers only to objects
  allocated before it. JSON decoding builds the inner dicts before the outer one, so
  parameters produced by parsing a model's answer are stratified this way.
\<close>

fun val_refs :: "pyval \<Rightarrow> addr list" where
  "val_refs (VDict a) = [a]"
| "val_refs (VList vs) = concat (map val_refs vs)"
| "val_refs _ = []"

definition strat_heap :: "heap \<Rightarrow> bool" where
  "strat_heap h \<longleftrightarrow>
     list_all (\<lambda>a. list_all (\<lambda>(k, v). list_all (\<lambda>b. b < a) (val_refs k @ val_refs v)) (h ! a))
       [0..<length h]"

text \<open>
  What a computation may do to the objects it finds: the heap only grows, every old object
  but the one at \<open>q\<close> is unchanged, and that one keeps its keys.
\<close>

definition heap_frame :: "heap \<Rightarrow> heap \<Rightarrow> addr \<Rightarrow> bool" where
  "heap_frame h h' q \<longleftrightarrow> length h \<le> length h' \<and> (\<forall>b < length h. b \<noteq> q \<longrightarrow> h' ! b = h ! b) \<and>
     (q < length h \<longrightarrow> map fst (h' ! q) = map fst (h ! q))"

subsection \<open>Dict lookup and store against the abstract map\<close>

lemma key_norm_idem [simp]: "key_norm (key_norm k) = key_norm k"
  by (cases k) auto

lemma hashable_key_norm [simp]: "hashable (key_norm k) = hashable k"
  by (cases k) auto

lemma dict_find_abs: "dict_find d k = dict_abs d (key_norm k)"
  by (induction d k rule: dict_find.induct) (auto simp: dict_abs_def)

lemma dict_abs_store: "dict_abs (dict_store d k v) = (dict_abs d)(key_norm k \<mapsto> v)"
  by (induction d k v rule: dict_store.induct) (auto simp: dict_abs_def fun_eq_iff)

lemma dict_store_keys:
  "key_norm k \<in> key_norm ` fst ` set d \<Longrightarrow> map fst (dict_store d k v) = map fst d"
  by (induction d k v rule: dict_store.induct) auto

lemma dict_store_length:
  "key_norm k \<in> key_norm ` fst ` set d \<Longrightarrow> length (dict_store d k v) = length d"
  using dict_store_keys [of k d v] by (metis length_map)

lemma set_map_fst_dict_store:
  "(\<lambda>p. key_norm (fst p)) ` set (dict_store d k v) = insert (key_norm k) ((\<lambda>p. key_norm (fst p)) ` set d)"
  by (induction d k v rule: dict_store.induct) auto

lemma distinct_dict_store:
  "distinct (map (key_norm \<circ> fst) d) \<Longrightarrow> distinct (map (key_norm \<circ> fst) (dict_store d k v))"
proof (induction d k v rule: dict_store.induct)
  case (2 k' v' d k v)
  show ?case
  proof (cases "key_norm k' = key_norm k")
    case True
    with "2.prems" show ?thesis by simp
  next
    case False
    with "2.IH" "2.prems" show ?thesis by (simp add: set_map_fst_dict_store)
  qed
qed simp

lemma dict_store_fst: "fst ` set (dict_store d k v) \<subseteq> insert k (fst ` set d)"
  by (induction d k v rule: dict_store.induct) auto

lemma dict_store_snd: "snd ` set (dict_store d k v) \<subseteq> insert v (snd ` set d)"
  by (induction d k v rule: dict_store.induct) auto

lemma dict_store_nth:
  "i < length d \<Longrightarrow> key_norm (fst (d ! i)) = key_norm k \<Longrightarrow> distinct (map (key_norm \<circ> fst) d) \<Longrightarrow>
   dict_store d k v = d[i := (fst (d ! i), v)]"
proof (induction d k v arbitrary: i rule: dict_store.induct)
  case (2 k' v' d k v)
  show ?case
  proof (cases i)
    case 0
    with "2.prems" show ?thesis by simp
  next
    case (Suc j)
    with "2.prems" have j: "j < length d" and kj: "key_norm (fst (d ! j)) = key_norm k"
      by simp_all
    from j have "key_norm (fst (d ! j)) \<in> (\<lambda>p. key_norm (fst p)) ` set d"
      by (blast intro: nth_mem)
    moreover from "2.prems"(3) have "key_norm k' \<notin> (\<lambda>p. key_norm (fst p)) ` set d"
      by simp
    ultimately have "key_norm k' \<noteq> key_norm k" using kj by metis
    with "2.IH" "2.prems" Suc j kj show ?thesis by simp
  qed
qed simp

subsection \<open>Well-formedness depends on the heap's size only\<close>

lemma wf_val_length: "length h = length h' \<Longrightarrow> wf_val h v = wf_val h' v"
  by (induction h v rule: wf_val.induct) (auto simp: list_all_iff)

lemma wf_val_mono: "wf_val h v \<Longrightarrow> length h \<le> length h' \<Longrightarrow> wf_val h' v"
  by (induction h v rule: wf_val.induct) (auto simp: list_all_iff)

lemma wf_dict_mono: "wf_dict h d \<Longrightarrow> length h \<le> length h' \<Longrightarrow> wf_dict h' d"
  by (auto simp: wf_dict_def list_all_iff intro: wf_val_mono)

lemma wf_dict_store:
  assumes "wf_dict h d" and "hashable k" and "wf_val h k" and "wf_val h v"
  shows "wf_dict h (dict_store d k v)"
proof -
  have keys: "\<forall>k' \<in> fst ` set (dict_store d k v). hashable k' \<and> wf_val h k'"
    using assms dict_store_fst [of d k v] by (force simp: wf_dict_def list_all_iff)
  have vals: "\<forall>v' \<in> snd ` set (dict_store d k v). wf_val h v'"
    using assms dict_store_snd [of d k v] by (force simp: wf_dict_def list_all_iff)
  from keys vals assms(1) show ?thesis
    unfolding wf_dict_def list_all_iff by (force simp: distinct_dict_store)
qed

lemma wf_heap_update:
  "wf_heap h \<Longrightarrow> wf_dict h d \<Longrightarrow> wf_heap (h[a := d])"
  unfolding wf_heap_def list_all_iff
  by (metis in_set_conv_nth length_list_update nth_list_update nth_list_update_neq wf_dict_mono order_refl)

lemma wf_heap_nth: "wf_heap h \<Longrightarrow> a < length h \<Longrightarrow> wf_dict h (h ! a)"
  by (simp add: wf_heap_def list_all_length)

subsection \<open>Frame and preservation facts of the heap operations\<close>

lemma heap_obj_Inr [simp]: "heap_obj h a = Inr d \<longleftrightarrow> a < length h \<and> d = h ! a"
  by (auto simp: heap_obj_def)

lemma dict_method_Inr [simp]: "dict_method v attr = Inr a \<longleftrightarrow> v = VDict a"
  by (cases v) (auto simp: dict_method_def)

lemma dict_get_Inr:
  "dict_get h a k dflt = Inr r \<longleftrightarrow>
     hashable k \<and> a < length h \<and> r = (case dict_abs (h ! a) (key_norm k) of None \<Rightarrow> dflt | Some v \<Rightarrow> v)"
  by (auto simp: dict_get_def dict_find_abs)

lemma dict_setitem_Inr:
  "dict_setitem h a k v = Inr h' \<longleftrightarrow> hashable k \<and> a < length h \<and> h' = h[a := dict_store (h ! a) k v]"
  by (auto simp: dict_setitem_def)

lemma dict_setitem_frame [frame_simps]:
  "dict_setitem h a k v = Inr h' \<Longrightarrow> length h' = length h \<and> (\<forall>b. b \<noteq> a \<longrightarrow> h' ! b = h ! b)"
  by (auto simp: dict_setitem_Inr)

lemma wf_heap_setitem:
  "dict_setitem h a k v = Inr h' \<Longrightarrow> wf_heap h \<Longrightarrow> wf_val h k \<Longrightarrow> wf_val h v \<Longrightarrow> wf_heap h'"
  by (auto simp: dict_setitem_Inr intro!: wf_heap_update wf_dict_store wf_heap_nth)

lemma alloc_dict_apply [exc_simps]:
  "alloc_dict s = (Inr (length (mem s)), s\<lparr>mem := mem s @ [[]]\<rparr>)"
  by (simp add: alloc_dict_def)

lemma wf_heap_snoc_empty:
  assumes "wf_heap h"
  shows "wf_heap (h @ [[]])"
proof -
  from assms have "\<forall>d \<in> set h. wf_dict (h @ [[]]) d"
    by (auto simp: wf_heap_def list_all_iff intro: wf_dict_mono)
  moreover have "wf_dict (h @ [[]]) []" by (simp add: wf_dict_def)
  ultimately show ?thesis by (simp add: wf_heap_def list_all_iff)
qed

lemma heap_frame_refl [simp]: "heap_frame h h q"
  by (simp add: heap_frame_def)

lemma heap_frame_append [simp]: "heap_frame h (h @ xs) q"
  by (simp add: heap_frame_def nth_append)

lemma heap_frame_trans: "heap_frame h1 h2 q \<Longrightarrow> heap_frame h2 h3 q \<Longrightarrow> heap_frame h1 h3 q"
  by (auto simp: heap_frame_def)

subsection \<open>Reachability in a stratified heap\<close>

inductive_cases reaches_VDictE: "reaches h (VDict b) a"
inductive_cases reaches_VListE: "reaches h (VList vs) a"

lemma reaches_scalar [simp]:
  "\<not> reaches h VNone a" "\<not> reaches h (VBool b) a" "\<not> reaches h (VInt i) a" "\<not> reaches h (VStr s) a"
  by (auto elim: reaches.cases)

lemma strat_heapD:
  assumes "strat_heap h" and "b < length h" and "(k, v) \<in> set (h ! b)"
    and "c \<in> set (val_refs k) \<union> set (val_refs v)"
  shows "c < b"
proof -
  from assms(1,2) have "\<forall>x \<in> set (h ! b). case x of (k, v) \<Rightarrow> \<forall>c \<in> set (val_refs k) \<union> set (val_refs v). c < b"
    by (simp add: strat_heap_def list_all_iff)
  with assms(3,4) show ?thesis by fastforce
qed

lemma reaches_below_refs:
  "reaches h v a \<Longrightarrow> strat_heap h \<Longrightarrow> \<exists>c \<in> set (val_refs v). a \<le> c"
proof (induction rule: reaches.induct)
  case (ref h a)
  then show ?case by simp
next
  case (elem v vs h a)
  then show ?case by auto
next
  case (entry_key b h k v a)
  then obtain c where "c \<in> set (val_refs k)" "a \<le> c" by blast
  with entry_key.hyps entry_key.prems have "a < b" by (fastforce dest: strat_heapD)
  then show ?case by simp
next
  case (entry_val b h k v a)
  then obtain c where "c \<in> set (val_refs v)" "a \<le> c" by blast
  with entry_val.hyps entry_val.prems have "a < b" by (fastforce dest: strat_heapD)
  then show ?case by simp
qed

text \<open>In a stratified heap no entry of a dict reaches the dict itself.\<close>

lemma strat_heap_no_self_reach:
  "strat_heap h \<Longrightarrow> q < length h \<Longrightarrow> (k, v) \<in> set (h ! q) \<Longrightarrow> \<not> reaches h v q"
  by (fastforce dest: reaches_below_refs strat_heapD)

lemma strat_heap_snoc_empty: "strat_heap h \<Longrightarrow> strat_heap (h @ [[]])"
  by (auto simp: strat_heap_def list_all_iff nth_append)



end
