(* ===== verification/PyStr.thy ===== *)
theory PyStr
  imports PyValue
begin

text \<open>
  CPython's \<open>str()\<close> and \<open>repr()\<close> on the modelled values. The node applies
  \<open>str\<close> to every query parameter (\<open>parameters[key] = str(value)\<close>), to the values
  it prints and to the query name in the error message.
  \<^item> \<open>int\<close>: decimal digits with a leading minus. Since CPython 3.11, converting an int
    of more than \<open>sys.get_int_max_str_digits()\<close> = 4300 decimal digits raises
    \<open>ValueError\<close> (\<open>long_to_decimal_string_internal\<close>). This is the one way \<open>str()\<close>
    fails on JSON-like data.
  \<^item> \<open>str\<close>: \<open>str(s)\<close> is \<open>s\<close> itself. \<open>repr(s)\<close> (used for strings inside a list or
    dict) quotes with \<open>'\<close> unless the text contains \<open>'\<close> and no \<open>"\<close>, and escapes the
    quote, the backslash, tab, newline, carriage return and the unprintable characters
    as \<open>\xhh\<close> (\<open>unicode_repr\<close>). An Isabelle \<open>char\<close> is read as the code point
    U+0000..U+00FF; code points above U+00FF are not modelled.
  \<^item> \<open>list\<close> and \<open>dict\<close>: \<open>[r1, r2]\<close> and \<open>{rk: rv, ...}\<close> of the elements' \<open>repr\<close>.
    A dict that is already being printed higher up prints as \<open>{...}\<close>
    (\<open>Py_ReprEnter\<close>). The list of dicts on the current path is the argument \<open>p\<close>.
    Termination is by the number of heap addresses not yet on the path, then by the
    size of the value.
\<close>

definition int_max_str_digits :: nat where
  "int_max_str_digits = 4300"

definition digit_char :: "nat \<Rightarrow> char" where
  "digit_char d = char_of (48 + d)"

fun dec_digits :: "nat \<Rightarrow> string" where
  "dec_digits n = (if n < 10 then [digit_char n] else dec_digits (n div 10) @ [digit_char (n mod 10)])"

declare dec_digits.simps [simp del]

definition int_str_limit_error :: exn where
  "int_str_limit_error = ValueError
     (''Exceeds the limit (4300 digits) for integer string conversion; '' @
      ''use sys.set_int_max_str_digits() to increase the limit'')"

definition int_repr :: "int \<Rightarrow> exn + string" where
  "int_repr i =
     (let ds = dec_digits (nat \<bar>i\<bar>)
      in if int_max_str_digits < length ds then Inl int_str_limit_error
         else Inr (if i < 0 then CHR ''-'' # ds else ds))"

definition hex_digit :: "nat \<Rightarrow> char" where
  "hex_digit d = (if d < 10 then char_of (48 + d) else char_of (87 + d))"

definition hex_escape :: "char \<Rightarrow> string" where
  "hex_escape c = [CHR 0x5C, CHR ''x'', hex_digit (of_char c div 16), hex_digit (of_char c mod 16)]"

text \<open>\<open>Py_UNICODE_ISPRINTABLE\<close> on U+0000..U+00FF: U+00A0 (a space separator) and U+00AD
  (a format character) are not printable.\<close>

definition printable_latin1 :: "char \<Rightarrow> bool" where
  "printable_latin1 c =
     (let n = (of_char c :: nat) in (32 \<le> n \<and> n < 127) \<or> (161 \<le> n \<and> n \<noteq> 173))"

definition str_quote :: "string \<Rightarrow> char" where
  "str_quote s = (if CHR 0x27 \<in> set s \<and> CHR 0x22 \<notin> set s then CHR 0x22 else CHR 0x27)"

definition repr_char :: "char \<Rightarrow> char \<Rightarrow> string" where
  "repr_char q c =
     (if c = q \<or> c = CHR 0x5C then [CHR 0x5C, c]
      else if c = CHR 0x09 then [CHR 0x5C, CHR ''t'']
      else if c = CHR 0x0A then [CHR 0x5C, CHR ''n'']
      else if c = CHR 0x0D then [CHR 0x5C, CHR ''r'']
      else if printable_latin1 c then [c]
      else hex_escape c)"

definition str_repr :: "string \<Rightarrow> string" where
  "str_repr s = (let q = str_quote s in q # concat (map (repr_char q) s) @ [q])"

definition unvisited :: "heap \<Rightarrow> addr list \<Rightarrow> nat" where
  "unvisited h p = card ({..<length h} - set p)"

function py_repr :: "heap \<Rightarrow> addr list \<Rightarrow> pyval \<Rightarrow> exn + string"
  and repr_list :: "heap \<Rightarrow> addr list \<Rightarrow> pyval list \<Rightarrow> exn + string list"
  and repr_items :: "heap \<Rightarrow> addr list \<Rightarrow> dictobj \<Rightarrow> exn + string list" where
  "py_repr h p VNone = Inr ''None''"
| "py_repr h p (VBool b) = Inr (if b then ''True'' else ''False'')"
| "py_repr h p (VInt i) = int_repr i"
| "py_repr h p (VStr s) = Inr (str_repr s)"
| "py_repr h p (VList vs) = sbind (repr_list h p vs) (\<lambda>ss. Inr (''['' @ join '', '' ss @ '']''))"
| "py_repr h p (VDict a) =
     (if a \<in> set p then Inr ''{...}''
      else if a < length h then sbind (repr_items h (a # p) (h ! a)) (\<lambda>ss. Inr (''{'' @ join '', '' ss @ ''}''))
      else Inl (InvalidAddr a))"
| "repr_list h p [] = Inr []"
| "repr_list h p (v # vs) =
     sbind (py_repr h p v) (\<lambda>s. sbind (repr_list h p vs) (\<lambda>ss. Inr (s # ss)))"
| "repr_items h p [] = Inr []"
| "repr_items h p ((k, v) # kvs) =
     sbind (py_repr h p k) (\<lambda>sk. sbind (py_repr h p v) (\<lambda>sv.
       sbind (repr_items h p kvs) (\<lambda>ss. Inr ((sk @ '': '' @ sv) # ss))))"
  by pat_completeness auto

termination
  by (relation "measures
       [\<lambda>x. case x of Inl (h, p, _) \<Rightarrow> unvisited h p | Inr (Inl (h, p, _)) \<Rightarrow> unvisited h p
                   | Inr (Inr (h, p, _)) \<Rightarrow> unvisited h p,
        \<lambda>x. case x of Inl (_, _, v) \<Rightarrow> size v | Inr (Inl (_, _, vs)) \<Rightarrow> size_list size vs
                   | Inr (Inr (_, _, kvs)) \<Rightarrow> size_list (\<lambda>(k, v). size k + size v) kvs]")
     (auto simp: unvisited_def intro!: diff_less card_gt_0_iff [THEN iffD2])

text \<open>\<open>str(v)\<close>: a string is returned as it is, everything else as its \<open>repr\<close>.\<close>

definition py_str :: "heap \<Rightarrow> pyval \<Rightarrow> exn + string" where
  "py_str h v = (case v of VStr s \<Rightarrow> Inr s | _ \<Rightarrow> py_repr h [] v)"

text \<open>Values whose conversion cannot hit the digit limit.\<close>

fun ints_ok :: "pyval \<Rightarrow> bool" where
  "ints_ok (VInt i) = (length (dec_digits (nat \<bar>i\<bar>)) \<le> int_max_str_digits)"
| "ints_ok (VList vs) = list_all ints_ok vs"
| "ints_ok _ = True"

definition heap_ints_ok :: "heap \<Rightarrow> bool" where
  "heap_ints_ok h = list_all (list_all (\<lambda>(k, v). ints_ok k \<and> ints_ok v)) h"

subsection \<open>Decimal digits: the length bound\<close>

lemma dec_digits_not_Nil [simp]: "dec_digits n \<noteq> []"
  by (subst dec_digits.simps) simp

lemma length_dec_digits:
  "length (dec_digits n) = (if n < 10 then 1 else Suc (length (dec_digits (n div 10))))"
  by (subst dec_digits.simps) simp

lemma length_dec_digits_le: "0 < k \<Longrightarrow> length (dec_digits n) \<le> k \<longleftrightarrow> n < 10 ^ k"
proof (induction n arbitrary: k rule: dec_digits.induct)
  case (1 n)
  show ?case
  proof (cases "n < 10")
    case True
    from "1.prems" have "(10::nat) \<le> 10 ^ k" by (cases k) auto
    with True "1.prems" show ?thesis by (simp add: length_dec_digits)
  next
    case False
    then have len: "length (dec_digits n) = Suc (length (dec_digits (n div 10)))"
      by (simp add: length_dec_digits)
    obtain k' where k: "k = Suc k'" using "1.prems" by (cases k) auto
    show ?thesis
    proof (cases "k' = 0")
      case True
      with False k len show ?thesis by (simp add: Suc_le_eq)
    next
      case False
      with "1.IH" \<open>\<not> n < 10\<close> have "length (dec_digits (n div 10)) \<le> k' \<longleftrightarrow> n div 10 < 10 ^ k'"
        by simp
      with k len show ?thesis by (simp add: div_less_iff_less_mult mult.commute)
    qed
  qed
qed

lemma int_repr_ok:
  "length (dec_digits (nat \<bar>i\<bar>)) \<le> int_max_str_digits \<Longrightarrow> \<exists>s. int_repr i = Inr s"
  by (simp add: int_repr_def Let_def)

subsection \<open>\<open>repr\<close> on well-formed values\<close>

text \<open>On a well-formed heap \<open>repr\<close> succeeds when no int is over the digit limit \<dots>\<close>

lemma repr_ok:
  "wf_heap h \<Longrightarrow> heap_ints_ok h \<Longrightarrow> wf_val h v \<Longrightarrow> ints_ok v \<Longrightarrow> \<exists>s. py_repr h p v = Inr s"
  "wf_heap h \<Longrightarrow> heap_ints_ok h \<Longrightarrow> list_all (wf_val h) vs \<Longrightarrow> list_all ints_ok vs \<Longrightarrow>
     \<exists>ss. repr_list h p vs = Inr ss"
  "wf_heap h \<Longrightarrow> heap_ints_ok h \<Longrightarrow>
     list_all (\<lambda>(k, v). wf_val h k \<and> wf_val h v \<and> ints_ok k \<and> ints_ok v) kvs \<Longrightarrow>
     \<exists>ss. repr_items h p kvs = Inr ss"
proof (induction h p v and h p vs and h p kvs rule: py_repr_repr_list_repr_items.induct)
  case (6 h p a)
  show ?case
  proof (cases "a \<in> set p")
    case True
    then show ?thesis by simp
  next
    case False
    from "6.prems" have a: "a < length h" by simp
    with "6.prems" have "list_all (\<lambda>(k, v). wf_val h k \<and> wf_val h v \<and> ints_ok k \<and> ints_ok v) (h ! a)"
      by (auto simp: wf_dict_def heap_ints_ok_def list_all_iff dest!: wf_heap_nth [of h a])
    with "6.IH" "6.prems" False a show ?thesis by auto
  qed
qed (auto simp: int_repr_ok)

text \<open>\<dots> and the digit limit is the only exception it can raise.\<close>

lemma repr_error:
  "wf_heap h \<Longrightarrow> wf_val h v \<Longrightarrow> py_repr h p v = Inl e \<Longrightarrow> e = int_str_limit_error"
  "wf_heap h \<Longrightarrow> list_all (wf_val h) vs \<Longrightarrow> repr_list h p vs = Inl e \<Longrightarrow> e = int_str_limit_error"
  "wf_heap h \<Longrightarrow> list_all (\<lambda>(k, v). wf_val h k \<and> wf_val h v) kvs \<Longrightarrow>
     repr_items h p kvs = Inl e \<Longrightarrow> e = int_str_limit_error"
proof (induction h p v and h p vs and h p kvs rule: py_repr_repr_list_repr_items.induct)
  case (3 h p i)
  then show ?case by (simp add: int_repr_def Let_def split: if_splits)
next
  case (6 h p a)
  from "6.prems" have a: "a < length h" by simp
  with "6.prems" have "list_all (\<lambda>(k, v). wf_val h k \<and> wf_val h v) (h ! a)"
    by (auto simp: wf_dict_def list_all_iff dest!: wf_heap_nth [of h a])
  with "6.IH" "6.prems" a show ?case by (auto split: if_splits)
qed (auto split: if_splits)

text \<open>An exception in the \<open>repr\<close> of one entry is an exception of the whole dict.\<close>

lemma repr_items_isl:
  "(k, v) \<in> set kvs \<Longrightarrow> isl (py_repr h p v) \<Longrightarrow> isl (repr_items h p kvs)"
proof (induction kvs)
  case (Cons e kvs)
  obtain k' v' where e: "e = (k', v')" by (cases e) auto
  show ?case
  proof (cases "(k, v) = (k', v')")
    case True
    with Cons.prems(2) e show ?thesis by (auto simp: sbind_case split: sum.splits)
  next
    case False
    with Cons e have "isl (repr_items h p kvs)" by auto
    with e show ?thesis by (auto simp: sbind_case split: sum.splits)
  qed
qed simp

subsection \<open>\<open>repr\<close> reads only what the value reaches\<close>

lemma repr_frame:
  "length h' = length h \<Longrightarrow> (\<forall>b. reaches h v b \<longrightarrow> h' ! b = h ! b) \<Longrightarrow> py_repr h' p v = py_repr h p v"
  "length h' = length h \<Longrightarrow> (\<forall>v \<in> set vs. \<forall>b. reaches h v b \<longrightarrow> h' ! b = h ! b) \<Longrightarrow>
     repr_list h' p vs = repr_list h p vs"
  "length h' = length h \<Longrightarrow>
     (\<forall>(k, v) \<in> set kvs. \<forall>b. reaches h k b \<or> reaches h v b \<longrightarrow> h' ! b = h ! b) \<Longrightarrow>
     repr_items h' p kvs = repr_items h p kvs"
proof (induction h p v and h p vs and h p kvs rule: py_repr_repr_list_repr_items.induct)
  case (5 h p vs)
  from "5.prems"(2) have "\<forall>v \<in> set vs. \<forall>b. reaches h v b \<longrightarrow> h' ! b = h ! b"
    by (blast intro: reaches.elem)
  with "5.IH" "5.prems"(1) show ?case by simp
next
  case (6 h p a)
  show ?case
  proof (cases "a \<notin> set p \<and> a < length h")
    case True
    with "6.prems" have same: "h' ! a = h ! a" by (auto intro: reaches.ref)
    from "6.prems" True have "\<forall>(k, v) \<in> set (h ! a). \<forall>b. reaches h k b \<or> reaches h v b \<longrightarrow> h' ! b = h ! b"
      by (auto intro: reaches.entry_key reaches.entry_val)
    with "6.IH" "6.prems" True same show ?thesis by simp
  next
    case False
    with "6.prems" show ?thesis by auto
  qed
qed (auto simp: sbind_case split: sum.split)

lemma py_str_frame:
  assumes "length h' = length h" and "\<forall>b. reaches h v b \<longrightarrow> h' ! b = h ! b"
  shows "py_str h' v = py_str h v"
proof -
  from assms have "py_repr h' [] v = py_repr h [] v" by (rule repr_frame(1))
  then show ?thesis by (cases v) (simp_all add: py_str_def del: py_repr.simps)
qed

text \<open>Allocating objects does not change the \<open>repr\<close> of a value that was there before.\<close>

lemma repr_extend:
  "wf_heap h \<Longrightarrow> wf_val h v \<Longrightarrow> py_repr (h @ xs) p v = py_repr h p v"
  "wf_heap h \<Longrightarrow> list_all (wf_val h) vs \<Longrightarrow> repr_list (h @ xs) p vs = repr_list h p vs"
  "wf_heap h \<Longrightarrow> list_all (\<lambda>(k, v). wf_val h k \<and> wf_val h v) kvs \<Longrightarrow> repr_items (h @ xs) p kvs = repr_items h p kvs"
proof (induction h p v and h p vs and h p kvs rule: py_repr_repr_list_repr_items.induct)
  case (6 h p a)
  show ?case
  proof (cases "a \<in> set p")
    case False
    from "6.prems" have a: "a < length h" by simp
    then have same: "(h @ xs) ! a = h ! a" by (simp add: nth_append)
    from wf_heap_nth [OF "6.prems"(1) a] have "list_all (\<lambda>(k, v). wf_val h k \<and> wf_val h v) (h ! a)"
      by (auto simp: wf_dict_def list_all_iff)
    with "6.IH" "6.prems"(1) False a same show ?thesis by simp
  qed simp
qed (auto simp: sbind_case split: sum.split)

lemma py_str_extend: "wf_heap h \<Longrightarrow> wf_val h v \<Longrightarrow> py_str (h @ xs) v = py_str h v"
  using repr_extend(1) [of h v xs "[]"] by (cases v) (simp_all add: py_str_def del: py_repr.simps)

lemma py_str_ok:
  "wf_heap h \<Longrightarrow> heap_ints_ok h \<Longrightarrow> wf_val h v \<Longrightarrow> ints_ok v \<Longrightarrow> \<exists>s. py_str h v = Inr s"
  using repr_ok(1) [of h v "[]"] by (cases v) (auto simp: py_str_def)

lemma py_str_error:
  "wf_heap h \<Longrightarrow> wf_val h v \<Longrightarrow> py_str h v = Inl e \<Longrightarrow> e = int_str_limit_error"
  using repr_error(1) [of h v "[]" e] by (cases v) (auto simp: py_str_def)

lemma py_str_VStr [simp]: "py_str h (VStr s) = Inr s"
  by (simp add: py_str_def)

lemma heap_ints_ok_update:
  "heap_ints_ok h \<Longrightarrow> list_all (\<lambda>(k, v). ints_ok k \<and> ints_ok v) d \<Longrightarrow> heap_ints_ok (h[a := d])"
  by (auto simp: heap_ints_ok_def list_all_iff dest!: set_update_subset_insert [THEN subsetD])

lemma heap_ints_ok_nth:
  "heap_ints_ok h \<Longrightarrow> a < length h \<Longrightarrow> list_all (\<lambda>(k, v). ints_ok k \<and> ints_ok v) (h ! a)"
  by (simp add: heap_ints_ok_def list_all_length)

subsection \<open>The digit limit\<close>

lemma pow10_le_nat_abs: "(10::nat) ^ k \<le> nat \<bar>i\<bar> \<longleftrightarrow> (10::int) ^ k \<le> \<bar>i\<bar>"
  by (simp add: le_nat_iff)

lemma int_max_str_digits_pos: "0 < int_max_str_digits"
  by (simp add: int_max_str_digits_def)

text \<open>
  \<open>str(i)\<close> raises the \<open>ValueError\<close> of CPython 3.11 and later exactly when
  \<open>|i| \<ge> 10^4300\<close>, and otherwise returns the decimal digits of \<open>|i|\<close>, after a
  minus sign when i is negative.
\<close>

lemma int_repr_limit:
  "int_repr i = (if (10::int) ^ int_max_str_digits \<le> \<bar>i\<bar> then Inl int_str_limit_error
                 else Inr (if i < 0 then CHR ''-'' # dec_digits (nat \<bar>i\<bar>) else dec_digits (nat \<bar>i\<bar>)))"
proof -
  have "int_max_str_digits < length (dec_digits (nat \<bar>i\<bar>)) \<longleftrightarrow> (10::int) ^ int_max_str_digits \<le> \<bar>i\<bar>"
    using length_dec_digits_le [OF int_max_str_digits_pos, of "nat \<bar>i\<bar>"] pow10_le_nat_abs [of int_max_str_digits i]
    by (simp only: not_le [symmetric]) simp
  then show ?thesis by (simp only: int_repr_def Let_def)
qed

lemma ints_ok_VInt: "ints_ok (VInt i) \<longleftrightarrow> \<bar>i\<bar> < (10::int) ^ int_max_str_digits"
  using int_repr_limit [of i] by (auto simp: int_repr_def Let_def split: if_splits)

end
