(* ===== verification/ParamCoercion.thy ===== *)
theory ParamCoercion
  imports PyStr
begin

text \<open>
  The parameter coercion of \<open>node.py\<close>, lines 50--52:
  \<^verbatim>\<open>
    parameters = params.get("parameters", {})
    for key, value in parameters.items():
        parameters[key] = str(value)
  \<close>
  The loop mutates the dict object in place. The iteration follows CPython's dict
  item iterator (\<open>dictiter_iternextitem\<close>): every step first checks that the dict's
  size is still the size it had when the iteration began (otherwise \<open>RuntimeError\<close>),
  then reads the entry at the current position, or stops at the end.
  \<open>coerce_items q n i h\<close> is the loop at position \<open>i\<close> over the dict at address \<open>q\<close>,
  begun at size \<open>n\<close>. It returns the heap reached also when an exception leaves the
  loop, because the assignments already made stay in place. It terminates because
  \<open>n - i\<close> decreases.

  \<open>str_values\<close> is the reference the loop is compared with: every value of the dict's
  original contents converted by \<open>str\<close> in the original heap, as the comprehension
  \<open>{k: str(v) for k, v in d.items()}\<close> would compute it.
\<close>

definition dict_size_changed :: exn where
  "dict_size_changed = RuntimeError ''dictionary changed size during iteration''"

function coerce_items :: "addr \<Rightarrow> nat \<Rightarrow> nat \<Rightarrow> heap \<Rightarrow> (exn + unit) \<times> heap" where
  "coerce_items q n i h =
     (case heap_obj h q of
        Inl e \<Rightarrow> (Inl e, h)
      | Inr d \<Rightarrow>
          if length d \<noteq> n then (Inl dict_size_changed, h)
          else if i < n then
            (case py_str h (snd (d ! i)) of
               Inl e \<Rightarrow> (Inl e, h)
             | Inr s \<Rightarrow>
                 (case dict_setitem h q (fst (d ! i)) (VStr s) of
                    Inl e \<Rightarrow> (Inl e, h)
                  | Inr h' \<Rightarrow> coerce_items q n (Suc i) h'))
          else (Inr (), h))"
  by pat_completeness auto
termination
  by (relation "measure (\<lambda>(q, n, i, h). n - i)") auto

declare coerce_items.simps [simp del]

text \<open>\<open>parameters.items()\<close> needs a dict; the iteration starts at its current size.\<close>

definition coerce_params :: "pyval \<Rightarrow> unit pym" where
  "coerce_params parameters =
     bindE (liftE (dict_method parameters ''items'')) (\<lambda>q.
     bindE (\<lambda>s. (heap_obj (mem s) q, s)) (\<lambda>d s.
       (let (r, h') = coerce_items q (length d) 0 (mem s) in (r, s\<lparr>mem := h'\<rparr>))))"

fun str_values :: "heap \<Rightarrow> dictobj \<Rightarrow> exn + dictobj" where
  "str_values h [] = Inr []"
| "str_values h ((k, v) # d) = sbind (py_str h v) (\<lambda>s. sbind (str_values h d) (\<lambda>d'. Inr ((k, VStr s) # d')))"

fun is_str :: "pyval \<Rightarrow> bool" where
  "is_str (VStr _) = True"
| "is_str _ = False"

subsection \<open>One step of the loop\<close>

lemma heap_obj_valid [simp]: "a < length h \<Longrightarrow> heap_obj h a = Inr (h ! a)"
  by (simp add: heap_obj_def)

lemma coerce_items_stop:
  "q < length h \<Longrightarrow> length (h ! q) = n \<Longrightarrow> \<not> i < n \<Longrightarrow> coerce_items q n i h = (Inr (), h)"
  by (subst coerce_items.simps) simp

lemma coerce_items_str_error:
  "q < length h \<Longrightarrow> length (h ! q) = n \<Longrightarrow> i < n \<Longrightarrow> py_str h (snd (h ! q ! i)) = Inl e \<Longrightarrow>
   coerce_items q n i h = (Inl e, h)"
  by (subst coerce_items.simps) simp

lemma coerce_items_step:
  assumes "q < length h" and "length (h ! q) = n" and "i < n"
    and "hashable (fst (h ! q ! i))" and "distinct (map (key_norm \<circ> fst) (h ! q))"
    and "py_str h (snd (h ! q ! i)) = Inr s"
  shows "coerce_items q n i h = coerce_items q n (Suc i) (h[q := (h ! q)[i := (fst (h ! q ! i), VStr s)]])"
proof -
  from assms have "dict_store (h ! q) (fst (h ! q ! i)) (VStr s) = (h ! q)[i := (fst (h ! q ! i), VStr s)]"
    by (simp add: dict_store_nth)
  with assms show ?thesis
    by (subst coerce_items.simps) (simp add: dict_setitem_def)
qed

text \<open>The facts of a well-formed heap the step needs, bundled.\<close>

lemma wf_heap_entry:
  assumes "wf_heap h" and "q < length h" and "i < length (h ! q)"
  shows "hashable (fst (h ! q ! i))" and "wf_val h (fst (h ! q ! i))" and "wf_val h (snd (h ! q ! i))"
    and "distinct (map (key_norm \<circ> fst) (h ! q))"
proof -
  from assms(1,2) have d: "wf_dict h (h ! q)" by (rule wf_heap_nth)
  from assms(3) have "h ! q ! i \<in> set (h ! q)" by simp
  with d show "hashable (fst (h ! q ! i))" and "wf_val h (fst (h ! q ! i))" and "wf_val h (snd (h ! q ! i))"
    by (auto simp: wf_dict_def list_all_iff)
  from d show "distinct (map (key_norm \<circ> fst) (h ! q))" by (simp add: wf_dict_def)
qed

lemma wf_heap_coerce_step:
  assumes "wf_heap h" and "q < length h" and "i < length (h ! q)"
  shows "wf_heap (h[q := (h ! q)[i := (fst (h ! q ! i), VStr s)]])"
proof -
  note e = wf_heap_entry [OF assms]
  from assms e have "dict_setitem h q (fst (h ! q ! i)) (VStr s) = Inr (h[q := (h ! q)[i := (fst (h ! q ! i), VStr s)]])"
    by (simp add: dict_setitem_def dict_store_nth)
  with assms(1) e show ?thesis by (auto intro: wf_heap_setitem)
qed

subsection \<open>What a run of the loop does\<close>

text \<open>
  Whatever the aliasing, a run keeps the heap well-formed, changes no object but the
  iterated dict, keeps that dict's keys in order, leaves the entries before the start
  position alone, turns every later value into a string when it finishes, and can be
  stopped only by the digit limit of \<open>str\<close>. In particular the size check never fires.
\<close>

lemma coerce_items_inv:
  "coerce_items q n i h = (r, h') \<Longrightarrow> wf_heap h \<Longrightarrow> q < length h \<Longrightarrow> length (h ! q) = n \<Longrightarrow>
   wf_heap h' \<and> length h' = length h \<and> (\<forall>b. b \<noteq> q \<longrightarrow> h' ! b = h ! b) \<and>
   map fst (h' ! q) = map fst (h ! q) \<and> (\<forall>j < i. h' ! q ! j = h ! q ! j) \<and>
   (r = Inr () \<longrightarrow> (\<forall>j. i \<le> j \<and> j < n \<longrightarrow> is_str (snd (h' ! q ! j)))) \<and>
   (\<forall>j. j < n \<longrightarrow> is_str (snd (h ! q ! j)) \<longrightarrow> h' ! q ! j = h ! q ! j) \<and>
   (\<forall>e. r = Inl e \<longrightarrow> e = int_str_limit_error)"
proof (induction "n - i" arbitrary: i h r h')
  case 0
  then show ?case by (auto simp: coerce_items_stop)
next
  case (Suc m)
  then have i: "i < n" by simp
  note e = wf_heap_entry [OF Suc.prems(2,3), of i]
  show ?case
  proof (cases "py_str h (snd (h ! q ! i))")
    case (Inl x)
    with Suc.prems i e show ?thesis by (auto simp: coerce_items_str_error dest: py_str_error)
  next
    case (Inr s)
    let ?h1 = "h[q := (h ! q)[i := (fst (h ! q ! i), VStr s)]]"
    from Suc.prems i e Inr have run: "coerce_items q n (Suc i) ?h1 = (r, h')"
      by (simp add: coerce_items_step)
    have wf1: "wf_heap ?h1" using Suc.prems i by (simp add: wf_heap_coerce_step)
    from Suc.hyps(1) [of "Suc i" ?h1 r h'] Suc.hyps(2) Suc.prems run wf1
    have IH: "wf_heap h' \<and> length h' = length ?h1 \<and> (\<forall>b. b \<noteq> q \<longrightarrow> h' ! b = ?h1 ! b) \<and>
        map fst (h' ! q) = map fst (?h1 ! q) \<and> (\<forall>j < Suc i. h' ! q ! j = ?h1 ! q ! j) \<and>
        (r = Inr () \<longrightarrow> (\<forall>j. Suc i \<le> j \<and> j < n \<longrightarrow> is_str (snd (h' ! q ! j)))) \<and>
        (\<forall>j. j < n \<longrightarrow> is_str (snd (?h1 ! q ! j)) \<longrightarrow> h' ! q ! j = ?h1 ! q ! j) \<and>
        (\<forall>e. r = Inl e \<longrightarrow> e = int_str_limit_error)"
      by simp
    have "map fst ((h ! q)[i := (fst (h ! q ! i), VStr s)]) = map fst (h ! q)"
      using Suc.prems i by (metis (no_types) fst_conv map_update map_update_same)
    with Suc.prems have keys: "map fst (?h1 ! q) = map fst (h ! q)" by simp
    have at_i: "h' ! q ! i = (fst (h ! q ! i), VStr s)" using IH Suc.prems i by simp
    have strs: "r = Inr () \<longrightarrow> (\<forall>j. i \<le> j \<and> j < n \<longrightarrow> is_str (snd (h' ! q ! j)))"
    proof (intro impI allI)
      fix j
      assume r: "r = Inr ()" and j: "i \<le> j \<and> j < n"
      show "is_str (snd (h' ! q ! j))"
      proof (cases "j = i")
        case True
        with at_i show ?thesis by simp
      next
        case False
        with j r IH show ?thesis by simp
      qed
    qed
    have keep: "\<forall>j. j < n \<longrightarrow> is_str (snd (h ! q ! j)) \<longrightarrow> h' ! q ! j = h ! q ! j"
    proof (intro allI impI)
      fix j
      assume j: "j < n" and str: "is_str (snd (h ! q ! j))"
      show "h' ! q ! j = h ! q ! j"
      proof (cases "j = i")
        case True
        with str Inr obtain x where "snd (h ! q ! i) = VStr x" and "s = x"
          by (cases "snd (h ! q ! i)") auto
        with True at_i show ?thesis by (metis prod.collapse)
      next
        case False
        with j str IH Suc.prems show ?thesis by simp
      qed
    qed
    from IH keys strs keep Suc.prems show ?thesis by simp
  qed
qed

text \<open>On a well-formed heap with no int over the digit limit the loop always finishes.\<close>

lemma coerce_items_total:
  "wf_heap h \<Longrightarrow> heap_ints_ok h \<Longrightarrow> q < length h \<Longrightarrow> length (h ! q) = n \<Longrightarrow>
   \<exists>h'. coerce_items q n i h = (Inr (), h') \<and> heap_ints_ok h'"
proof (induction "n - i" arbitrary: i h)
  case 0
  then show ?case by (simp add: coerce_items_stop)
next
  case (Suc m)
  then have i: "i < n" by simp
  note e = wf_heap_entry [OF Suc.prems(1,3), of i]
  have ok: "list_all (\<lambda>(k, v). ints_ok k \<and> ints_ok v) (h ! q)"
    using Suc.prems by (simp add: heap_ints_ok_nth)
  with i Suc.prems have ik: "ints_ok (fst (h ! q ! i))" and "ints_ok (snd (h ! q ! i))"
    by (auto simp: list_all_length case_prod_beta)
  with Suc.prems e i obtain s where s: "py_str h (snd (h ! q ! i)) = Inr s"
    using py_str_ok by (metis)
  let ?h1 = "h[q := (h ! q)[i := (fst (h ! q ! i), VStr s)]]"
  have wf1: "wf_heap ?h1" using Suc.prems i by (simp add: wf_heap_coerce_step)
  from ok ik have "list_all (\<lambda>(k, v). ints_ok k \<and> ints_ok v) ((h ! q)[i := (fst (h ! q ! i), VStr s)])"
    by (simp add: list_all_update)
  with Suc.prems have ok1: "heap_ints_ok ?h1" by (simp add: heap_ints_ok_update)
  have m: "m = n - Suc i" using Suc.hyps(2) by arith
  have "\<exists>h'. coerce_items q n (Suc i) ?h1 = (Inr (), h') \<and> heap_ints_ok h'"
    using Suc.hyps(1) [of "Suc i" ?h1] m wf1 ok1 Suc.prems by simp
  then obtain h' where "coerce_items q n (Suc i) ?h1 = (Inr (), h') \<and> heap_ints_ok h'" ..
  with Suc.prems e i s show ?case by (auto simp: coerce_items_step)
qed

text \<open>A dict whose values are all strings already is left as it is.\<close>

lemma coerce_items_strings:
  "q < length h \<Longrightarrow> length (h ! q) = n \<Longrightarrow> distinct (map (key_norm \<circ> fst) (h ! q)) \<Longrightarrow>
   list_all (\<lambda>(k, v). hashable k \<and> is_str v) (h ! q) \<Longrightarrow> coerce_items q n i h = (Inr (), h)"
proof (induction "n - i" arbitrary: i)
  case 0
  then show ?case by (simp add: coerce_items_stop)
next
  case (Suc m)
  then have i: "i < n" by simp
  from Suc.prems i have hk: "hashable (fst (h ! q ! i))" and st: "is_str (snd (h ! q ! i))"
    by (auto simp: list_all_length case_prod_beta)
  from st obtain s where s: "snd (h ! q ! i) = VStr s" by (cases "snd (h ! q ! i)") auto
  then have same: "h[q := (h ! q)[i := (fst (h ! q ! i), VStr s)]] = h"
    by (metis prod.collapse list_update_id)
  from Suc.prems i hk s have "coerce_items q n i h = coerce_items q n (Suc i) h"
    using coerce_items_step [of q h n i s] same by simp
  with Suc show ?case by simp
qed

subsection \<open>The loop against the reference comprehension\<close>

lemma str_values_keys: "str_values h d = Inr d' \<Longrightarrow> map fst d' = map fst d"
  by (induction h d arbitrary: d' rule: str_values.induct) auto

lemma str_values_strs: "str_values h d = Inr d' \<Longrightarrow> list_all (\<lambda>(k, v). is_str v) d'"
  by (induction h d arbitrary: d' rule: str_values.induct) auto

lemma str_values_strs_id: "list_all (\<lambda>(k, v). is_str v) d \<Longrightarrow> str_values h d = Inr d"
proof (induction d)
  case (Cons e d)
  then show ?case by (cases e; cases "snd e") (auto simp: py_str_def)
qed simp

lemma str_values_ok:
  "wf_heap h \<Longrightarrow> heap_ints_ok h \<Longrightarrow> list_all (\<lambda>(k, v). wf_val h v \<and> ints_ok v) d \<Longrightarrow>
   \<exists>d'. str_values h d = Inr d'"
proof (induction d)
  case (Cons e d)
  then obtain k v where e: "e = (k, v)" and v: "wf_val h v" "ints_ok v" and d: "\<exists>d'. str_values h d = Inr d'"
    by (cases e) auto
  from py_str_ok [OF Cons.prems(1,2) v] d e show ?case by auto
qed simp

text \<open>Replacing a dict by one with the same keys and string values keeps the heap stratified.\<close>

lemma strat_heap_update_strs:
  assumes strat: "strat_heap h" and q: "q < length h" and keys: "map fst d = map fst (h ! q)"
    and strs: "list_all (\<lambda>(k, v). is_str v) d"
  shows "strat_heap (h[q := d])"
proof -
  have "c < a" if a: "a < length h" and kv: "(k, v) \<in> set (h[q := d] ! a)"
    and c: "c \<in> set (val_refs k) \<union> set (val_refs v)" for a k v c
  proof (cases "a = q")
    case True
    with kv q have kd: "(k, v) \<in> set d" by simp
    with strs have "is_str v" by (auto simp: list_all_iff)
    then have nv: "val_refs v = []" by (cases v) simp_all
    from kd keys have "k \<in> set (map fst (h ! q))" by (metis image_eqI fst_conv list.set_map)
    then obtain v' where "(k, v') \<in> set (h ! q)" by auto
    from strat_heapD [OF strat q this, of c] c nv True show ?thesis by simp
  next
    case False
    with kv have "(k, v) \<in> set (h ! a)" by simp
    from strat_heapD [OF strat a this c] show ?thesis .
  qed
  then show ?thesis by (fastforce simp: strat_heap_def list_all_iff)
qed

text \<open>
  When no entry of the dict reaches the dict itself, every \<open>str\<close> the loop computes sees
  the original objects, so the loop computes the comprehension: the same first error, or
  the dict with every value replaced by its string. The induction runs over the entries
  not yet visited (\<open>rest\<close>); \<open>P\<close> are the entries already rewritten.
\<close>

lemma str_values_extend:
  "wf_heap h \<Longrightarrow> list_all (\<lambda>(k, v). wf_val h v) d \<Longrightarrow> str_values (h @ xs) d = str_values h d"
  by (induction d) (auto simp: py_str_extend)

lemma coerce_items_refines:
  assumes "wf_heap h" and "q < length h" and "h ! q = P @ rest" and "length P = i"
    and "n = i + length rest" and "length h = length h0" and "\<forall>b. b \<noteq> q \<longrightarrow> h ! b = h0 ! b"
    and "\<forall>(k, v) \<in> set rest. \<not> reaches h0 v q"
  shows "fst (coerce_items q n i h) = sbind (str_values h0 rest) (\<lambda>_. Inr ()) \<and>
         (\<forall>R. str_values h0 rest = Inr R \<longrightarrow> snd (coerce_items q n i h) = h[q := P @ R])"
  using assms
proof (induction rest arbitrary: P i h)
  case Nil
  then show ?case by (simp add: coerce_items_stop) (metis list_update_id)
next
  case (Cons kv rest)
  obtain k v where kv: "kv = (k, v)" by (cases kv)
  from Cons.prems have i: "i < n" and il: "i < length (h ! q)" by simp_all
  from Cons.prems kv have at: "h ! q ! i = (k, v)" by (simp add: nth_append)
  have frame: "py_str h v = py_str h0 v"
  proof (rule py_str_frame)
    show "length h = length h0" by (rule Cons.prems(6))
    show "\<forall>b. reaches h0 v b \<longrightarrow> h ! b = h0 ! b" using Cons.prems(7,8) kv by auto
  qed
  show ?case
  proof (cases "py_str h0 v")
    case (Inl e)
    with frame at Cons.prems i have "coerce_items q n i h = (Inl e, h)"
      by (simp add: coerce_items_str_error)
    with Inl kv show ?thesis by simp
  next
    case (Inr s)
    let ?P' = "P @ [(k, VStr s)]"
    let ?h1 = "h[q := ?P' @ rest]"
    note e = wf_heap_entry [OF Cons.prems(1,2) il]
    have upd: "(h ! q)[i := (fst (h ! q ! i), VStr s)] = ?P' @ rest"
      using Cons.prems(3,4) at by (simp add: list_update_append)
    from e at frame Inr Cons.prems i have step: "coerce_items q n i h = coerce_items q n (Suc i) ?h1"
      using coerce_items_step [of q h n i s] upd by simp
    have wf1: "wf_heap ?h1" using wf_heap_coerce_step [OF Cons.prems(1,2) il, of s] upd by simp
    have IH: "fst (coerce_items q n (Suc i) ?h1) = sbind (str_values h0 rest) (\<lambda>_. Inr ()) \<and>
        (\<forall>R. str_values h0 rest = Inr R \<longrightarrow> snd (coerce_items q n (Suc i) ?h1) = ?h1[q := ?P' @ R])"
      using Cons.IH [of ?h1 ?P' "Suc i"] wf1 Cons.prems kv by simp
    from IH step Inr kv show ?thesis by (auto simp: sbind_case split: sum.split)
  qed
qed

subsection \<open>The coercion step: properties\<close>

lemma coerce_params_VDict:
  "q < length (mem s) \<Longrightarrow>
   coerce_params (VDict q) s = (let (r, h') = coerce_items q (length (mem s ! q)) 0 (mem s) in (r, s\<lparr>mem := h'\<rparr>))"
  by (simp add: coerce_params_def bindE_def liftE_def dict_method_def)

lemma coerce_params_not_dict:
  "\<forall>q. p \<noteq> VDict q \<Longrightarrow> coerce_params p s = (Inl (no_attribute_error p ''items''), s)"
  by (cases p) (simp_all add: coerce_params_def bindE_def liftE_def dict_method_def)

lemma coerce_params_Inr_dict: "coerce_params p s = (Inr (), s') \<Longrightarrow> \<exists>q. p = VDict q \<and> q < length (mem s)"
  by (cases p) (auto simp: coerce_params_def bindE_def liftE_def dict_method_def heap_obj_def split: if_splits)

text \<open>On every outcome the loop writes into the dict it iterates only, and keeps its keys.\<close>

lemma coerce_params_frame:
  assumes c: "coerce_params p s = (r, s')" and wf: "wf_heap (mem s)"
  shows "length (mem s') = length (mem s) \<and> (\<exists>q. heap_frame (mem s) (mem s') q)"
proof (cases "\<exists>q. p = VDict q \<and> q < length (mem s)")
  case True
  then obtain q where p: "p = VDict q" and q: "q < length (mem s)" by blast
  from c p q obtain h' where ci: "coerce_items q (length (mem s ! q)) 0 (mem s) = (r, h')" and m: "mem s' = h'"
    by (auto simp: coerce_params_VDict split: prod.splits)
  from coerce_items_inv [OF ci wf q refl] m have "length (mem s') = length (mem s)" "heap_frame (mem s) (mem s') q"
    by (auto simp: heap_frame_def)
  then show ?thesis by blast
next
  case False
  with c have "s' = s"
    by (cases p) (auto simp: coerce_params_def bindE_def liftE_def dict_method_def heap_obj_def)
  then show ?thesis by auto
qed

lemma coerce_params_stdout: "coerce_params p s = (r, s') \<Longrightarrow> stdout s' = stdout s"
  by (auto simp: coerce_params_def bindE_def liftE_def split: prod.splits sum.splits)

lemma coerce_params_Inr_inv:
  assumes "wf_heap (mem s)" and "coerce_params p s = (Inr (), s')"
  shows "\<exists>q. p = VDict q \<and> q < length (mem s) \<and> wf_heap (mem s') \<and> length (mem s') = length (mem s) \<and>
           (\<forall>b. b \<noteq> q \<longrightarrow> mem s' ! b = mem s ! b) \<and> map fst (mem s' ! q) = map fst (mem s ! q) \<and>
           list_all (\<lambda>(k, v). is_str v) (mem s' ! q) \<and> stdout s' = stdout s \<and>
           (\<forall>j < length (mem s ! q). is_str (snd (mem s ! q ! j)) \<longrightarrow> mem s' ! q ! j = mem s ! q ! j)"
proof -
  from coerce_params_Inr_dict [OF assms(2)] obtain q where p: "p = VDict q" and q: "q < length (mem s)"
    by blast
  with assms have run: "coerce_items q (length (mem s ! q)) 0 (mem s) = (Inr (), mem s')"
    and s': "s' = s\<lparr>mem := mem s'\<rparr>"
    by (auto simp: coerce_params_VDict split: prod.splits)
  from coerce_items_inv [OF run assms(1) q refl] have inv:
    "wf_heap (mem s') \<and> length (mem s') = length (mem s) \<and> (\<forall>b. b \<noteq> q \<longrightarrow> mem s' ! b = mem s ! b) \<and>
     map fst (mem s' ! q) = map fst (mem s ! q) \<and>
     (\<forall>j. j < length (mem s ! q) \<longrightarrow> is_str (snd (mem s' ! q ! j))) \<and>
     (\<forall>j < length (mem s ! q). is_str (snd (mem s ! q ! j)) \<longrightarrow> mem s' ! q ! j = mem s ! q ! j)"
    by simp
  then have "length (mem s' ! q) = length (mem s ! q)" by (metis length_map)
  with inv have "list_all (\<lambda>(k, v). is_str v) (mem s' ! q)"
    by (auto simp: list_all_length case_prod_beta)
  moreover from s' have "stdout s' = stdout s" by (metis pystate.select_convs(2) pystate.surjective pystate.update_convs(1))
  ultimately show ?thesis using p q inv by blast
qed

subsection \<open>Claims about the coercion step\<close>

text \<open>
  C14. When no entry of the parameters dict reaches the dict itself (as in every dict
  decoded from JSON), the in-place loop of lines 51--52 computes exactly the comprehension
  \<open>{k: str(v) for k, v in d.items()}\<close> over the original values: it raises the
  comprehension's first exception, and when that succeeds it leaves the heap with the
  dict's entries replaced by the converted ones and nothing else changed.
\<close>

theorem coerce_params_refines:
  assumes "wf_heap (mem s)" and "q < length (mem s)"
    and "\<forall>(k, v) \<in> set (mem s ! q). \<not> reaches (mem s) v q"
  shows "fst (coerce_params (VDict q) s) = sbind (str_values (mem s) (mem s ! q)) (\<lambda>_. Inr ()) \<and>
         (\<forall>d'. str_values (mem s) (mem s ! q) = Inr d' \<longrightarrow>
            coerce_params (VDict q) s = (Inr (), s\<lparr>mem := (mem s)[q := d']\<rparr>))"
proof -
  have "fst (coerce_items q (length (mem s ! q)) 0 (mem s)) = sbind (str_values (mem s) (mem s ! q)) (\<lambda>_. Inr ()) \<and>
        (\<forall>R. str_values (mem s) (mem s ! q) = Inr R \<longrightarrow>
           snd (coerce_items q (length (mem s ! q)) 0 (mem s)) = (mem s)[q := [] @ R])"
    using assms by (intro coerce_items_refines) simp_all
  with assms(2) show ?thesis
    by (auto simp: coerce_params_VDict split: prod.splits)
qed

theorem coerce_params_refines_witness:
  "coerce_params (VDict 0) \<lparr>mem = [[(VStr ''id'', VInt 42)]], stdout = []\<rparr> =
     (Inr (), \<lparr>mem = [[(VStr ''id'', VStr ''42'')]], stdout = []\<rparr>)"
proof -
  let ?s = "\<lparr>mem = [[(VStr ''id'', VInt 42)]], stdout = []\<rparr>"
  have wf: "wf_heap (mem ?s)" by (simp add: wf_heap_def wf_dict_def)
  have sv: "str_values (mem ?s) (mem ?s ! 0) = Inr [(VStr ''id'', VStr ''42'')]" by code_simp
  from coerce_params_refines [of ?s 0] wf sv show ?thesis by simp
qed

text \<open>
  C15. The coercion is total on JSON-like data: on a well-formed heap in which no int
  has more than 4300 digits, the loop over any dict finishes without an exception.
\<close>

theorem coerce_params_total:
  assumes "wf_heap (mem s)" and "heap_ints_ok (mem s)" and "q < length (mem s)"
  shows "\<exists>s'. coerce_params (VDict q) s = (Inr (), s')"
proof -
  from coerce_items_total [OF assms(1,2,3), of "length (mem s ! q)" 0]
  obtain h' where "coerce_items q (length (mem s ! q)) 0 (mem s) = (Inr (), h')" by auto
  with assms(3) show ?thesis by (simp add: coerce_params_VDict)
qed

theorem coerce_params_total_witness:
  "\<exists>s'. coerce_params (VDict 0) \<lparr>mem = [[(VStr ''id'', VInt 42), (VBool True, VList [VNone])]], stdout = []\<rparr> = (Inr (), s')"
proof -
  let ?s = "\<lparr>mem = [[(VStr ''id'', VInt 42), (VBool True, VList [VNone])]], stdout = []\<rparr>"
  have "wf_heap (mem ?s)" and "heap_ints_ok (mem ?s)" and "0 < length (mem ?s)"
    by (code_simp, code_simp, simp)
  then show ?thesis by (rule coerce_params_total)
qed

text \<open>
  C16. After a successful coercion, the parameters value was a dict; every value of that
  dict is a string, its keys are the original keys in the original order, no other
  object changed, the heap is still well-formed and nothing was printed. This is the
  homogeneous string-typed binding the spec asks for (section 4.2, step 2).
\<close>

theorem coerce_params_result:
  assumes "wf_heap (mem s)" and "coerce_params p s = (Inr (), s')"
  shows "\<exists>q. p = VDict q \<and> wf_heap (mem s') \<and> length (mem s') = length (mem s) \<and>
           (\<forall>b. b \<noteq> q \<longrightarrow> mem s' ! b = mem s ! b) \<and> map fst (mem s' ! q) = map fst (mem s ! q) \<and>
           list_all (\<lambda>(k, v). is_str v) (mem s' ! q) \<and> stdout s' = stdout s"
  using coerce_params_Inr_inv [OF assms] by blast

theorem coerce_params_result_witness:
  "\<exists>q. VDict 0 = VDict q \<and> wf_heap [[(VStr ''id'', VStr ''42'')]] \<and>
     list_all (\<lambda>(k, v). is_str v) ([[(VStr ''id'', VStr ''42'')]] ! q)"
proof -
  let ?s = "\<lparr>mem = [[(VStr ''id'', VInt 42)]], stdout = []\<rparr>"
  let ?s' = "\<lparr>mem = [[(VStr ''id'', VStr ''42'')]], stdout = []\<rparr>"
  have wf: "wf_heap (mem ?s)" by (simp add: wf_heap_def wf_dict_def)
  have run: "coerce_params (VDict 0) ?s = (Inr (), ?s')" by code_simp
  from coerce_params_result [OF wf run] show ?thesis by auto
qed

text \<open>
  C17. The coercion raises nothing but the digit-limit \<open>ValueError\<close> of \<open>str\<close>, or
  \<open>AttributeError\<close> when the parameters value is not a dict. In particular the size
  check of the dict iterator never fires: assigning to existing keys never resizes the
  dict (no \<open>RuntimeError: dictionary changed size during iteration\<close>).
\<close>

theorem coerce_params_errors:
  assumes "wf_heap (mem s)" and "wf_val (mem s) p" and "coerce_params p s = (Inl e, s')"
  shows "e = int_str_limit_error \<or> e = no_attribute_error p ''items''"
proof (cases "\<exists>q. p = VDict q")
  case True
  then obtain q where p: "p = VDict q" by blast
  with assms(2) have q: "q < length (mem s)" by simp
  with assms(3) p obtain h' where "coerce_items q (length (mem s ! q)) 0 (mem s) = (Inl e, h')"
    by (auto simp: coerce_params_VDict split: prod.splits)
  from coerce_items_inv [OF this assms(1) q refl] show ?thesis by simp
next
  case False
  with assms(3) show ?thesis by (simp add: coerce_params_not_dict)
qed

theorem coerce_params_errors_witness:
  "coerce_params (VList []) \<lparr>mem = [], stdout = []\<rparr> =
     (Inl (no_attribute_error (VList []) ''items''), \<lparr>mem = [], stdout = []\<rparr>) \<and>
   (no_attribute_error (VList []) ''items'' = int_str_limit_error \<or>
    no_attribute_error (VList []) ''items'' = no_attribute_error (VList []) ''items'')"
proof -
  let ?s = "\<lparr>mem = [], stdout = []\<rparr>"
  have run: "coerce_params (VList []) ?s = (Inl (no_attribute_error (VList []) ''items''), ?s)"
    by (simp add: coerce_params_not_dict)
  have "wf_heap (mem ?s)" and "wf_val (mem ?s) (VList [])" by (simp_all add: wf_heap_def)
  from coerce_params_errors [OF this run] run show ?thesis by simp
qed

text \<open>
  C18. Coercion is idempotent (spec section 8): running the loop again on a dict it has
  already coerced changes nothing, because \<open>str\<close> of a string is the string itself.
\<close>

theorem coerce_params_idempotent:
  assumes "wf_heap (mem s)" and "coerce_params p s = (Inr (), s')"
  shows "coerce_params p s' = (Inr (), s')"
proof -
  from coerce_params_Inr_inv [OF assms] obtain q where p: "p = VDict q" and q0: "q < length (mem s)"
    and wf': "wf_heap (mem s')" and len: "length (mem s') = length (mem s)"
    and strs: "list_all (\<lambda>(k, v). is_str v) (mem s' ! q)"
    by blast
  from q0 len have q: "q < length (mem s')" by simp
  from wf_heap_nth [OF wf' q] strs have "list_all (\<lambda>(k, v). hashable k \<and> is_str v) (mem s' ! q)"
    and "distinct (map (key_norm \<circ> fst) (mem s' ! q))"
    by (auto simp: wf_dict_def list_all_iff)
  with q have "coerce_items q (length (mem s' ! q)) 0 (mem s') = (Inr (), mem s')"
    by (simp add: coerce_items_strings)
  with q p show ?thesis by (simp add: coerce_params_VDict)
qed

theorem coerce_params_idempotent_witness:
  "coerce_params (VDict 0) \<lparr>mem = [[(VStr ''id'', VStr ''42'')]], stdout = []\<rparr> =
     (Inr (), \<lparr>mem = [[(VStr ''id'', VStr ''42'')]], stdout = []\<rparr>)"
proof -
  let ?s = "\<lparr>mem = [[(VStr ''id'', VInt 42)]], stdout = []\<rparr>"
  have wf: "wf_heap (mem ?s)" by (simp add: wf_heap_def wf_dict_def)
  have run: "coerce_params (VDict 0) ?s = (Inr (), \<lparr>mem = [[(VStr ''id'', VStr ''42'')]], stdout = []\<rparr>)"
    by code_simp
  from coerce_params_idempotent [OF wf run] show ?thesis .
qed

end
