(* ===== verification/Registry.thy ===== *)
theory Registry
  imports PyValue
begin

text \<open>
  The query registry: \<open>predefined_cypher_dict\<close>, the \<open>Dict[str, str]\<close> from query name
  to Cypher template that \<open>create_predefined_cypher_node\<close> receives and the node closes
  over. The node never changes it, so it is a map from strings to strings.
  \<open>predefined_cypher_dict.get(key)\<close> (line 54) takes any Python value as key: an
  unhashable one (a list or a dict) raises \<open>TypeError\<close>; any other value that is not
  a string equals none of the registry's string keys and gives \<open>None\<close>.
\<close>

type_synonym registry = "string \<rightharpoonup> string"

definition registry_get :: "registry \<Rightarrow> pyval \<Rightarrow> exn + string option" where
  "registry_get reg k =
     (if \<not> hashable k then Inl (unhashable_error k)
      else Inr (case k of VStr s \<Rightarrow> reg s | _ \<Rightarrow> None))"

end
