(* ===== verification/PyPrint.thy ===== *)
theory PyPrint
  imports PyStr
begin

text \<open>
  The builtin \<open>print\<close>, which the node calls four times (lines 46, 47, 55 and 58).
  \<open>print(a, b)\<close> writes \<open>str(a)\<close>, a space, \<open>str(b)\<close> and a newline, argument by
  argument (\<open>builtin_print\<close>); if a \<open>str\<close> raises, what was written stays written.
  When every \<open>str\<close> succeeds, the writer produces \<open>' '.join(map(str, args))\<close>
  followed by a newline (\<open>print_args_output\<close>); it never changes the heap.
\<close>

fun print_args :: "bool \<Rightarrow> pyval list \<Rightarrow> unit pym" where
  "print_args first [] s = (Inr (), s)"
| "print_args first (v # vs) s =
     (let s1 = (if first then s else s\<lparr>stdout := stdout s @ '' ''\<rparr>)
      in case py_str (mem s1) v of
           Inl e \<Rightarrow> (Inl e, s1)
         | Inr t \<Rightarrow> print_args False vs (s1\<lparr>stdout := stdout s1 @ t\<rparr>))"

definition py_print :: "pyval list \<Rightarrow> unit pym" where
  "py_print vs = bindE (print_args True vs) (\<lambda>_ s. (Inr (), s\<lparr>stdout := stdout s @ [CHR 0x0A]\<rparr>))"

text \<open>\<open>str\<close> of every argument, the first exception winning.\<close>

fun str_list :: "heap \<Rightarrow> pyval list \<Rightarrow> exn + string list" where
  "str_list h [] = Inr []"
| "str_list h (v # vs) = sbind (py_str h v) (\<lambda>t. sbind (str_list h vs) (\<lambda>ts. Inr (t # ts)))"

lemma join_Cons_concat: "join sep (t # ts) = t @ concat (map (\<lambda>u. sep @ u) ts)"
  by (induction ts arbitrary: t) simp_all

lemma join_space: "join '' '' (t # ts) = t @ concat (map (Cons CHR '' '') ts)"
  using join_Cons_concat [of "'' ''" t ts] by simp

lemma print_args_mem: "print_args b vs s = (r, s') \<Longrightarrow> mem s' = mem s"
  by (induction b vs s rule: print_args.induct) (auto simp: Let_def split: sum.splits)

lemma py_print_mem: "py_print vs s = (r, s') \<Longrightarrow> mem s' = mem s"
  by (auto simp: py_print_def bindE_def dest: print_args_mem split: prod.splits sum.splits)

lemma print_args_result: "fst (print_args b vs s) = sbind (str_list (mem s) vs) (\<lambda>_. Inr ())"
  by (induction b vs s rule: print_args.induct) (auto simp: Let_def sbind_case split: sum.splits)

lemma print_args_output:
  "str_list (mem s) vs = Inr ts \<Longrightarrow>
   print_args b vs s =
     (Inr (), s\<lparr>stdout := stdout s @ (if b then join '' '' ts else concat (map (Cons CHR '' '') ts))\<rparr>)"
proof (induction b vs s arbitrary: ts rule: print_args.induct)
  case (1 first s)
  then show ?case by (cases first) simp_all
next
  case (2 first v vs s)
  from "2.prems" obtain t ts' where t: "py_str (mem s) v = Inr t" and ts': "str_list (mem s) vs = Inr ts'"
    and ts: "ts = t # ts'" by auto
  let ?s1 = "if first then s else s\<lparr>stdout := stdout s @ '' ''\<rparr>"
  have t1: "py_str (mem ?s1) v = Inr t" using t by simp
  have "str_list (mem (?s1\<lparr>stdout := stdout ?s1 @ t\<rparr>)) vs = Inr ts'" using ts' by simp
  from "2.IH" [OF refl t1 this] t1 ts show ?case
    by (cases first) (simp_all add: Let_def join_space)
qed

lemma print_args_ok:
  "\<forall>v \<in> set vs. \<not> isl (py_str (mem s) v) \<Longrightarrow> \<exists>out. print_args b vs s = (Inr (), s\<lparr>stdout := stdout s @ out\<rparr>)"
proof -
  assume ok: "\<forall>v \<in> set vs. \<not> isl (py_str (mem s) v)"
  have "\<exists>ts. str_list h vs = Inr ts" if "\<forall>v \<in> set vs. \<not> isl (py_str h v)" for h
    using that
  proof (induction vs)
    case (Cons v vs)
    then obtain t where "py_str h v = Inr t" by (cases "py_str h v") auto
    with Cons show ?case by auto
  qed simp
  with ok obtain ts where "str_list (mem s) vs = Inr ts" by blast
  from print_args_output [OF this] show ?thesis by blast
qed

lemma py_print_ok:
  "\<forall>v \<in> set vs. \<not> isl (py_str (mem s) v) \<Longrightarrow> \<exists>out. py_print vs s = (Inr (), s\<lparr>stdout := stdout s @ out\<rparr>)"
  using print_args_ok [of vs s True] by (auto simp: py_print_def bindE_def)

lemma py_print_ok_mem:
  "\<forall>v \<in> set vs. \<not> isl (py_str (mem s) v) \<Longrightarrow> \<exists>s'. py_print vs s = (Inr (), s') \<and> mem s' = mem s"
  using py_print_ok [of vs s] by auto

text \<open>The two shapes of call the node makes: a label and a value, and a single string.\<close>

lemma py_print_label:
  "py_str (mem s) v = Inr t \<Longrightarrow>
   py_print [VStr a, v] s = (Inr (), s\<lparr>stdout := stdout s @ a @ CHR '' '' # t @ [CHR 0x0A]\<rparr>)"
  using print_args_output [of s "[VStr a, v]" "[a, t]" True] by (simp add: py_print_def bindE_def)

lemma py_print_single: "py_print [VStr a] s = (Inr (), s\<lparr>stdout := stdout s @ a @ [CHR 0x0A]\<rparr>)"
  using print_args_output [of s "[VStr a]" "[a]" True] by (simp add: py_print_def bindE_def)

lemma py_print_label_Inl:
  "py_str (mem s) v = Inl e \<Longrightarrow> \<exists>s'. py_print [VStr a, v] s = (Inl e, s') \<and> mem s' = mem s"
  by (simp add: py_print_def bindE_def Let_def)

lemma py_print_label_Inr:
  "py_print [VStr a, v] s = (Inr (), s') \<Longrightarrow>
   \<exists>t. py_str (mem s) v = Inr t \<and> stdout s' = stdout s @ a @ CHR '' '' # t @ [CHR 0x0A]"
proof (cases "py_str (mem s) v")
  case (Inl e)
  assume "py_print [VStr a, v] s = (Inr (), s')"
  with py_print_label_Inl [OF Inl, of a] show ?thesis by auto
next
  case (Inr t)
  assume "py_print [VStr a, v] s = (Inr (), s')"
  with py_print_label [OF Inr, of a] Inr show ?thesis by auto
qed

end
