(* ===== verification/PredefinedCypher.thy ===== *)
theory PredefinedCypher
  imports ParamCoercion Registry PyPrint
begin

text \<open>
  The LangGraph node of \<open>predefined_cypher/node.py\<close>. \<open>create_predefined_cypher_node\<close>
  closes over the Neo4j graph wrapper and the registry and returns the coroutine
  \<open>predefined_cypher(state)\<close>. The coroutine contains no \<open>await\<close>, so it runs to
  completion in one step of the event loop; it is modelled as one computation of the
  exception-and-state monad over the heap and the standard output.
  The stages follow the source lines:
  \<^item> \<open>read_request\<close> (lines 42--47): \<open>state.get\<close> of the query name and of the query
    parameters (with a fresh \<open>dict()\<close> as default, allocated whether it is used or
    not), then the two \<open>print\<close> calls;
  \<^item> \<open>coerce_request\<close> (lines 50--52): \<open>params.get("parameters", {})\<close> and the
    coercion loop of \<open>ParamCoercion\<close>;
  \<^item> \<open>lookup_statement\<close> (lines 54--55): \<open>params.get("query")\<close> looked up in the
    registry, and the \<open>print\<close>;
  \<^item> \<open>execute_statement\<close> (lines 56--64): on a hit, \<open>graph.query\<close> and the
    \<open>print\<close> of the records; on a miss, the error message and an empty record list;
  \<^item> \<open>node_output\<close> (lines 66--80): the returned update, with
    \<open>statement or ""\<close> and \<open>records or NO_CYPHER_RESULTS\<close>.
  The graph is an interface: \<open>graph_query\<close> is \<open>Neo4jGraph.query\<close> on a template and
  the parameter dict's entries as they are at the call, returning rows of an arbitrary
  type \<open>'r\<close> or raising; \<open>graph_records_str\<close> renders rows for the f-string of
  line 58. Every lemma holds for every graph. Local variables that share a name with a
  field of \<open>CypherOutputState\<close> carry a prime (\<open>parameters'\<close>, \<open>statement'\<close>).
\<close>

record 'r graph =
  graph_query :: "string \<Rightarrow> dictobj \<Rightarrow> exn + 'r list"
  graph_records_str :: "'r list \<Rightarrow> string"

text \<open>
  \<open>records or NO_CYPHER_RESULTS\<close> yields either the non-empty result list or the
  sentinel constant of \<open>agentic_rag_agents/constants.py\<close> (not among the sources): a
  constructor of its own, distinct from every list of rows.
\<close>

datatype 'r cypher_records = Records "'r list" | NoCypherResults

text \<open>\<open>CypherOutputState\<close> (a TypedDict of \<open>text2cypher/state.py\<close>) and the update dict
  the node returns.\<close>

record 'r cypher_output =
  task :: pyval
  statement :: string
  parameters :: pyval
  errors :: "string list"
  records :: "'r cypher_records"
  steps :: "string list"

record 'r node_update =
  cyphers :: "'r cypher_output list"
  update_steps :: "string list"

subsection \<open>The stages of the node\<close>

definition read_request :: "pyval \<Rightarrow> (addr \<times> pyval \<times> pyval) pym" where
  "read_request state =
     bindE (liftE (dict_method state ''get'')) (\<lambda>st.
     bindE (\<lambda>s. (dict_get (mem s) st (VStr ''query_name'') (VStr ''''), s)) (\<lambda>statement_name.
     bindE alloc_dict (\<lambda>d0.
     bindE (\<lambda>s. (dict_get (mem s) st (VStr ''query_parameters'') (VDict d0), s)) (\<lambda>params.
     bindE (py_print [VStr ''statement_name'', statement_name]) (\<lambda>_.
     bindE (py_print [VStr ''params'', params]) (\<lambda>_.
     ret (st, statement_name, params)))))))"

definition coerce_request :: "pyval \<Rightarrow> (addr \<times> pyval) pym" where
  "coerce_request params =
     bindE (liftE (dict_method params ''get'')) (\<lambda>p.
     bindE alloc_dict (\<lambda>d1.
     bindE (\<lambda>s. (dict_get (mem s) p (VStr ''parameters'') (VDict d1), s)) (\<lambda>parameters'.
     bindE (coerce_params parameters') (\<lambda>_.
     ret (p, parameters')))))"

definition lookup_statement :: "registry \<Rightarrow> addr \<Rightarrow> string option pym" where
  "lookup_statement reg p =
     bindE (\<lambda>s. (dict_get (mem s) p (VStr ''query'') VNone, s)) (\<lambda>query.
     bindE (liftE (registry_get reg query)) (\<lambda>statement'.
     bindE (py_print [VStr ''statement'', case statement' of None \<Rightarrow> VNone | Some t \<Rightarrow> VStr t]) (\<lambda>_.
     ret statement')))"

definition lookup_error :: "string \<Rightarrow> string" where
  "lookup_error name = ''Unable to find the specified Cypher statement: '' @ name"

text \<open>The entries the graph receives: those of the (coerced) parameter dict.\<close>

definition dict_entries :: "heap \<Rightarrow> pyval \<Rightarrow> exn + dictobj" where
  "dict_entries h v = (case v of VDict a \<Rightarrow> heap_obj h a | _ \<Rightarrow> Inl (no_attribute_error v ''items''))"

definition execute_statement ::
    "'r graph \<Rightarrow> pyval \<Rightarrow> pyval \<Rightarrow> string option \<Rightarrow> (string list \<times> 'r list) pym" where
  "execute_statement graph statement_name parameters' statement' =
     (case statement' of
        Some t \<Rightarrow>
          bindE (\<lambda>s. (sbind (dict_entries (mem s) parameters') (graph_query graph t), s)) (\<lambda>rows.
          bindE (py_print [VStr (''records: '' @ graph_records_str graph rows)]) (\<lambda>_.
          ret ([], rows)))
      | None \<Rightarrow>
          bindE (\<lambda>s. (py_str (mem s) statement_name, s)) (\<lambda>name.
          ret ([lookup_error name], [])))"

definition step_marker :: string where
  "step_marker = ''execute_predefined_cypher''"

definition node_output ::
    "pyval \<Rightarrow> string option \<Rightarrow> pyval \<Rightarrow> string list \<Rightarrow> 'r list \<Rightarrow> 'r node_update" where
  "node_output tsk stmt params errs rows =
     \<lparr>cyphers = [\<lparr>task = tsk,
                   statement = (case stmt of None \<Rightarrow> '''' | Some t \<Rightarrow> t),
                   parameters = params,
                   errors = errs,
                   records = (if rows = [] then NoCypherResults else Records rows),
                   steps = [step_marker]\<rparr>],
      update_steps = [step_marker]\<rparr>"

definition predefined_cypher :: "'r graph \<Rightarrow> registry \<Rightarrow> pyval \<Rightarrow> 'r node_update pym" where
  "predefined_cypher graph reg state =
     bindE (read_request state) (\<lambda>(st, statement_name, params).
     bindE (coerce_request params) (\<lambda>(p, parameters').
     bindE (lookup_statement reg p) (\<lambda>statement'.
     bindE (execute_statement graph statement_name parameters' statement') (\<lambda>(errs, rows).
     bindE (\<lambda>s. (dict_get (mem s) st (VStr ''task'') (VStr ''''), s)) (\<lambda>tsk.
     ret (node_output tsk statement' params errs rows))))))"

text \<open>\<open>d.get(k, default)\<close> for a string key on a dict's entries: the form the lemmas use.\<close>

definition field_or :: "dictobj \<Rightarrow> string \<Rightarrow> pyval \<Rightarrow> pyval" where
  "field_or d k dflt = (case dict_abs d (VStr k) of None \<Rightarrow> dflt | Some v \<Rightarrow> v)"

definition create_predefined_cypher_node :: "'r graph \<Rightarrow> registry \<Rightarrow> pyval \<Rightarrow> 'r node_update pym" where
  "create_predefined_cypher_node graph reg = predefined_cypher graph reg"

subsection \<open>An example request\<close>

text \<open>
  The request the witnesses run: the state dict (object 2) names the statement
  \<open>find_person\<close> and holds the \<open>query_parameters\<close> dict (object 1), whose
  \<open>parameters\<close> dict (object 0) binds \<open>id\<close> to the int 42. The example graph
  answers every query with one record, the bindings it received; the failing graph raises
  a database error on every query.
\<close>

abbreviation example_heap :: heap where
  "example_heap \<equiv>
     [[(VStr ''id'', VInt 42)],
      [(VStr ''query'', VStr ''find_person''), (VStr ''parameters'', VDict 0)],
      [(VStr ''task'', VStr ''who''), (VStr ''query_name'', VStr ''find_person''),
       (VStr ''query_parameters'', VDict 1)]]"

abbreviation example_state :: pystate where
  "example_state \<equiv> \<lparr>mem = example_heap, stdout = []\<rparr>"

abbreviation example_statement :: string where
  "example_statement \<equiv> ''MATCH (p:Person {id: $id}) RETURN p''"

abbreviation example_registry :: registry where
  "example_registry \<equiv> [''find_person'' \<mapsto> example_statement]"

abbreviation example_graph :: "dictobj graph" where
  "example_graph \<equiv> \<lparr>graph_query = (\<lambda>t d. Inr [d]), graph_records_str = (\<lambda>_. ''rows'')\<rparr>"

abbreviation failing_graph :: "dictobj graph" where
  "failing_graph \<equiv> \<lparr>graph_query = (\<lambda>t d. Inl (DatabaseError ''connection refused'')),
                     graph_records_str = (\<lambda>_. '''')\<rparr>"

text \<open>The same request with a list as its \<open>query\<close>.\<close>

abbreviation list_query_state :: pystate where
  "list_query_state \<equiv>
     \<lparr>mem = [[(VStr ''id'', VInt 42)],
             [(VStr ''query'', VList [VStr ''find_person'']), (VStr ''parameters'', VDict 0)],
             [(VStr ''task'', VStr ''who''), (VStr ''query_name'', VStr ''find_person''),
              (VStr ''query_parameters'', VDict 1)]],
      stdout = []\<rparr>"

text \<open>What the node returns on the example request, with and without the statement registered.\<close>

abbreviation example_hit_output :: "dictobj node_update" where
  "example_hit_output \<equiv>
     node_output (VStr ''who'') (Some example_statement) (VDict 1) [] [[(VStr ''id'', VStr ''42'')]]"

abbreviation example_miss_output :: "dictobj node_update" where
  "example_miss_output \<equiv> node_output (VStr ''who'') None (VDict 1) [lookup_error ''find_person''] []"

text \<open>The example request with an int of 4301 digits as its binding.\<close>

abbreviation big_int_state :: pystate where
  "big_int_state \<equiv>
     \<lparr>mem = [[(VStr ''id'', VInt (10 ^ int_max_str_digits))],
             [(VStr ''query'', VStr ''find_person''), (VStr ''parameters'', VDict 0)],
             [(VStr ''task'', VStr ''who''), (VStr ''query_name'', VStr ''find_person''),
              (VStr ''query_parameters'', VDict 1)]], stdout = []\<rparr>"

subsection \<open>Evaluation of the stages\<close>

lemma read_request_VDict:
  "st < length (mem s) \<Longrightarrow>
   read_request (VDict st) s =
     bindE (py_print [VStr ''statement_name'', field_or (mem s ! st) ''query_name'' (VStr '''')]) (\<lambda>_.
     bindE (py_print [VStr ''params'', field_or (mem s ! st) ''query_parameters'' (VDict (length (mem s)))]) (\<lambda>_.
     ret (st, field_or (mem s ! st) ''query_name'' (VStr ''''),
              field_or (mem s ! st) ''query_parameters'' (VDict (length (mem s))))))
     (s\<lparr>mem := mem s @ [[]]\<rparr>)"
  by (simp add: read_request_def bindE_def liftE_def dict_method_def dict_get_def dict_find_abs
      field_or_def alloc_dict_def nth_append)

lemma read_request_dict:
  "read_request state s = (Inr x, s1) \<Longrightarrow> \<exists>a. state = VDict a \<and> a < length (mem s)"
  by (cases state) (auto simp: read_request_def bindE_def liftE_def dict_method_def dict_get_def heap_obj_def
      split: if_splits)

lemma read_request_Inr:
  assumes "read_request state s = (Inr (st, n, params), s1)"
  shows "state = VDict st \<and> st < length (mem s) \<and> n = field_or (mem s ! st) ''query_name'' (VStr '''') \<and>
         params = field_or (mem s ! st) ''query_parameters'' (VDict (length (mem s))) \<and> mem s1 = mem s @ [[]]"
proof -
  from read_request_dict [OF assms] obtain a where state: "state = VDict a" and a: "a < length (mem s)"
    by blast
  from assms state a show ?thesis
    by (auto simp: read_request_VDict bindE_eq_Inr ret_def dest!: py_print_mem)
qed

lemma coerce_request_Inr:
  assumes "coerce_request params s1 = (Inr (p, prm), s2)" and "wf_val (mem s1) params"
  shows "params = VDict p \<and> p < length (mem s1) \<and>
         prm = field_or (mem s1 ! p) ''parameters'' (VDict (length (mem s1))) \<and>
         coerce_params prm (s1\<lparr>mem := mem s1 @ [[]]\<rparr>) = (Inr (), s2)"
  using assms
  by (cases params)
     (auto simp: coerce_request_def bindE_eq_Inr ret_def liftE_def dict_method_def dict_get_def
       dict_find_abs field_or_def alloc_dict_def nth_append heap_obj_def split: if_splits)

lemma lookup_statement_Inr:
  assumes "lookup_statement reg p s2 = (Inr stmt, s3)"
  shows "p < length (mem s2) \<and> registry_get reg (field_or (mem s2 ! p) ''query'' VNone) = Inr stmt \<and>
         mem s3 = mem s2"
  using assms
  by (auto simp: lookup_statement_def bindE_eq_Inr ret_def liftE_def dict_get_def dict_find_abs field_or_def
      heap_obj_def registry_get_def split: if_splits dest!: py_print_mem)

lemma execute_statement_Inr:
  assumes "execute_statement g n prm stmt s3 = (Inr (errs, rows), s4)"
  shows "mem s4 = mem s3 \<and>
         (case stmt of
            Some t \<Rightarrow> errs = [] \<and> (\<exists>d. dict_entries (mem s3) prm = Inr d \<and> graph_query g t d = Inr rows)
          | None \<Rightarrow> rows = [] \<and> (\<exists>name. py_str (mem s3) n = Inr name \<and> errs = [lookup_error name]))"
  using assms
  by (cases stmt) (auto simp: execute_statement_def bindE_eq_Inr ret_def dest!: py_print_mem)

lemma predefined_cypher_Inr:
  assumes "predefined_cypher g reg state s = (Inr out, s')"
  shows "\<exists>st n params s1 p prm s2 stmt s3 errs rows tsk.
      read_request state s = (Inr (st, n, params), s1) \<and>
      coerce_request params s1 = (Inr (p, prm), s2) \<and>
      lookup_statement reg p s2 = (Inr stmt, s3) \<and>
      execute_statement g n prm stmt s3 = (Inr (errs, rows), s') \<and>
      dict_get (mem s') st (VStr ''task'') (VStr '''') = Inr tsk \<and>
      out = node_output tsk stmt params errs rows"
  using assms by (fastforce simp: predefined_cypher_def bindE_eq_Inr ret_def split: prod.splits)

subsection \<open>Field reads on well-formed heaps\<close>

lemma dict_abs_SomeD: "dict_abs d k = Some v \<Longrightarrow> \<exists>k'. (k', v) \<in> set d"
  by (auto simp: dict_abs_def dest!: map_of_SomeD)

lemma field_or_wf:
  "wf_heap h \<Longrightarrow> a < length h \<Longrightarrow> wf_val h dflt \<Longrightarrow> wf_val h (field_or (h ! a) k dflt)"
  by (auto simp: field_or_def wf_dict_def list_all_iff dest!: wf_heap_nth dict_abs_SomeD split: option.splits)

lemma field_or_ints:
  "heap_ints_ok h \<Longrightarrow> a < length h \<Longrightarrow> ints_ok dflt \<Longrightarrow> ints_ok (field_or (h ! a) k dflt)"
  by (auto simp: field_or_def list_all_iff dest!: heap_ints_ok_nth dict_abs_SomeD split: option.splits)

lemma heap_ints_ok_snoc_empty: "heap_ints_ok h \<Longrightarrow> heap_ints_ok (h @ [[]])"
  by (simp add: heap_ints_ok_def)

lemma wf_val_snoc: "wf_val h v \<Longrightarrow> wf_val (h @ xs) v"
  by (erule wf_val_mono) simp

text \<open>A string entry survives the coercion in place: the same keys, and the entries that
  were strings unchanged.\<close>

lemma dict_abs_keep_str:
  "map fst d' = map fst d \<Longrightarrow> (\<forall>j < length d. is_str (snd (d ! j)) \<longrightarrow> d' ! j = d ! j) \<Longrightarrow>
   dict_abs d k = Some v \<Longrightarrow> is_str v \<Longrightarrow> dict_abs d' k = Some v"
proof (induction d arbitrary: d')
  case Nil
  then show ?case by (simp add: dict_abs_def)
next
  case (Cons e d)
  then obtain e' d'' where d': "d' = e' # d''" by (cases d') auto
  from Cons.prems d' have fst_e: "fst e' = fst e" and keys: "map fst d'' = map fst d" by simp_all
  from Cons.prems(2) d' have tail: "\<forall>j < length d. is_str (snd (d ! j)) \<longrightarrow> d'' ! j = d ! j" by force
  show ?case
  proof (cases "key_norm (fst e) = k")
    case True
    with Cons.prems(3) have "snd e = v" by (cases e) (simp add: dict_abs_def)
    with Cons.prems(2,4) d' have "e' = e" by force
    with True Cons.prems(3) d' show ?thesis by (cases e) (simp add: dict_abs_def)
  next
    case False
    with Cons.prems(3) have "dict_abs d k = Some v" by (cases e) (simp add: dict_abs_def)
    with Cons.IH [OF keys tail] Cons.prems(4) have "dict_abs d'' k = Some v" by simp
    with False fst_e d' show ?thesis by (cases e, cases e') (simp add: dict_abs_def)
  qed
qed

subsection \<open>Runs of the node\<close>

lemma predefined_cypher_output:
  assumes "predefined_cypher g reg state s = (Inr out, s')"
  shows "\<exists>tsk stmt params errs rows. out = node_output tsk stmt params errs rows \<and>
           (case stmt of None \<Rightarrow> rows = [] \<and> (\<exists>name. errs = [lookup_error name])
                       | Some t \<Rightarrow> errs = [] \<and> t \<in> ran reg)"
proof -
  from predefined_cypher_Inr [OF assms] obtain st n params s1 p prm s2 stmt s3 errs rows tsk where
    look: "lookup_statement reg p s2 = (Inr stmt, s3)" and
    exe: "execute_statement g n prm stmt s3 = (Inr (errs, rows), s')" and
    out: "out = node_output tsk stmt params errs rows"
    by blast
  from lookup_statement_Inr [OF look] have "registry_get reg (field_or (mem s2 ! p) ''query'' VNone) = Inr stmt"
    by simp
  then have ran: "\<forall>t. stmt = Some t \<longrightarrow> t \<in> ran reg"
    by (auto simp: registry_get_def ranI split: if_splits pyval.splits)
  show ?thesis
  proof (intro exI conjI)
    show "out = node_output tsk stmt params errs rows" by (rule out)
    show "case stmt of None \<Rightarrow> rows = [] \<and> (\<exists>name. errs = [lookup_error name])
                     | Some t \<Rightarrow> errs = [] \<and> t \<in> ran reg"
      using execute_statement_Inr [OF exe] ran by (cases stmt) auto
  qed
qed

text \<open>
  C10. Every run that returns yields exactly one output, and both it and the update record
  the step \<open>execute_predefined_cypher\<close>.
\<close>

theorem predefined_cypher_one_outcome:
  assumes "predefined_cypher g reg state s = (Inr out, s')"
  shows "\<exists>c. cyphers out = [c] \<and> steps c = [''execute_predefined_cypher''] \<and>
             update_steps out = [''execute_predefined_cypher'']"
  using predefined_cypher_output [OF assms] by (auto simp: node_output_def step_marker_def)

text \<open>
  C9. \<open>records or NO_CYPHER_RESULTS\<close>: an output never carries an empty record
  list, and an output with errors carries the sentinel.
\<close>

theorem predefined_cypher_records:
  assumes "predefined_cypher g reg state s = (Inr out, s')"
  shows "\<exists>c. cyphers out = [c] \<and> records c \<noteq> Records [] \<and> (errors c \<noteq> [] \<longrightarrow> records c = NoCypherResults)"
  using predefined_cypher_output [OF assms] by (auto simp: node_output_def split: option.splits)

text \<open>
  C8. When no registered template is the empty string, an output has errors exactly when
  its statement is empty.
\<close>

theorem predefined_cypher_errors_statement:
  assumes "predefined_cypher g reg state s = (Inr out, s')" and "'''' \<notin> ran reg"
  shows "\<exists>c. cyphers out = [c] \<and> (errors c \<noteq> [] \<longleftrightarrow> statement c = '''')"
  using predefined_cypher_output [OF assms(1)] assms(2)
  by (auto simp: node_output_def lookup_error_def split: option.splits)

lemma predefined_cypher_run:
  assumes run: "predefined_cypher g reg (VDict st) s = (Inr out, s')" and wf: "wf_heap (mem s)"
  obtains P q stmt errs rows tsk where
    "st < length (mem s)"
    "field_or (mem s ! st) ''query_parameters'' (VDict (length (mem s))) = VDict P"
    "field_or ((mem s @ [[]]) ! P) ''parameters'' (VDict (Suc (length (mem s)))) = VDict q"
    "q < length (mem s) + 2" "length (mem s') = length (mem s) + 2" "wf_heap (mem s')"
    "\<forall>b. b \<noteq> q \<longrightarrow> mem s' ! b = (mem s @ [[], []]) ! b"
    "map fst (mem s' ! q) = map fst ((mem s @ [[], []]) ! q)"
    "list_all (\<lambda>(k, v). is_str v) (mem s' ! q)"
    "\<forall>j < length ((mem s @ [[], []]) ! q). is_str (snd ((mem s @ [[], []]) ! q ! j)) \<longrightarrow>
        mem s' ! q ! j = (mem s @ [[], []]) ! q ! j"
    "registry_get reg (field_or (mem s' ! P) ''query'' VNone) = Inr stmt"
    "case stmt of
       Some t \<Rightarrow> errs = [] \<and> graph_query g t (mem s' ! q) = Inr rows
     | None \<Rightarrow> rows = [] \<and>
         (\<exists>name. py_str (mem s') (field_or (mem s ! st) ''query_name'' (VStr '''')) = Inr name \<and>
                 errs = [lookup_error name])"
    "out = node_output tsk stmt (VDict P) errs rows"
    "tsk = field_or (mem s' ! st) ''task'' (VStr '''')"
    "coerce_items q (length ((mem s @ [[], []]) ! q)) 0 (mem s @ [[], []]) = (Inr (), mem s')"
proof -
  from predefined_cypher_Inr [OF run] obtain st' n params s1 p prm s2 stmt s3 errs rows tsk where
    rd: "read_request (VDict st) s = (Inr (st', n, params), s1)" and
    co: "coerce_request params s1 = (Inr (p, prm), s2)" and
    look: "lookup_statement reg p s2 = (Inr stmt, s3)" and
    exe: "execute_statement g n prm stmt s3 = (Inr (errs, rows), s')" and
    tk: "dict_get (mem s') st' (VStr ''task'') (VStr '''') = Inr tsk" and
    out: "out = node_output tsk stmt params errs rows"
    by blast
  from read_request_Inr [OF rd] have st: "st < length (mem s)" and st': "st' = st"
    and n: "n = field_or (mem s ! st) ''query_name'' (VStr '''')"
    and params: "params = field_or (mem s ! st) ''query_parameters'' (VDict (length (mem s)))"
    and m1: "mem s1 = mem s @ [[]]"
    by auto
  have "wf_val (mem s @ [[]]) (field_or ((mem s @ [[]]) ! st) ''query_parameters'' (VDict (length (mem s))))"
    by (rule field_or_wf) (use wf st in \<open>simp_all add: wf_heap_snoc_empty\<close>)
  then have "wf_val (mem s1) params" using st by (simp add: params m1 nth_append)
  from coerce_request_Inr [OF co this] have pP: "params = VDict p" and pl: "p < length (mem s1)"
    and prm: "prm = field_or (mem s1 ! p) ''parameters'' (VDict (length (mem s1)))"
    and cp: "coerce_params prm (s1\<lparr>mem := mem s1 @ [[]]\<rparr>) = (Inr (), s2)"
    by auto
  have wfh: "wf_heap (mem (s1\<lparr>mem := mem s1 @ [[]]\<rparr>))"
    using wf m1 wf_heap_snoc_empty [OF wf_heap_snoc_empty [OF wf]] by simp
  from coerce_params_Inr_inv [OF wfh cp] m1 obtain q where prmq: "prm = VDict q"
    and ql: "q < length (mem s) + 2"
    and inv: "wf_heap (mem s2)" "length (mem s2) = length (mem s) + 2"
      "\<forall>b. b \<noteq> q \<longrightarrow> mem s2 ! b = (mem s @ [[], []]) ! b"
      "map fst (mem s2 ! q) = map fst ((mem s @ [[], []]) ! q)"
      "list_all (\<lambda>(k, v). is_str v) (mem s2 ! q)"
      "\<forall>j < length ((mem s @ [[], []]) ! q). is_str (snd ((mem s @ [[], []]) ! q ! j)) \<longrightarrow>
          mem s2 ! q ! j = (mem s @ [[], []]) ! q ! j"
    by auto
  from cp prmq ql m1 have ci:
    "coerce_items q (length ((mem s @ [[], []]) ! q)) 0 (mem s @ [[], []]) = (Inr (), mem s2)"
    by (auto simp: coerce_params_VDict split: prod.splits)
  from lookup_statement_Inr [OF look] have m3: "mem s3 = mem s2"
    and reg: "registry_get reg (field_or (mem s2 ! p) ''query'' VNone) = Inr stmt" by auto
  from execute_statement_Inr [OF exe] m3 have m': "mem s' = mem s2" by simp
  have cases: "case stmt of
       Some t \<Rightarrow> errs = [] \<and> graph_query g t (mem s' ! q) = Inr rows
     | None \<Rightarrow> rows = [] \<and>
         (\<exists>name. py_str (mem s') (field_or (mem s ! st) ''query_name'' (VStr '''')) = Inr name \<and>
                 errs = [lookup_error name])"
    using execute_statement_Inr [OF exe] m3 m' prmq inv(2) ql n
    by (cases stmt) (auto simp: dict_entries_def heap_obj_def)
  show ?thesis
  proof (rule that)
    show "field_or (mem s ! st) ''query_parameters'' (VDict (length (mem s))) = VDict p"
      using params pP by simp
    show "field_or ((mem s @ [[]]) ! p) ''parameters'' (VDict (Suc (length (mem s)))) = VDict q"
      using prm prmq m1 by simp
    show "out = node_output tsk stmt (VDict p) errs rows" using out pP by simp
    show "tsk = field_or (mem s' ! st) ''task'' (VStr '''')"
      using tk st' by (simp add: dict_get_Inr field_or_def)
  qed (use st ql inv m' reg cases ci in simp_all)
qed

lemma dict_abs_None: "dict_abs d k = None \<longleftrightarrow> k \<notin> key_norm ` set (map fst d)"
  by (induction d) (auto simp: dict_abs_def)

lemma dict_abs_None_keys: "map fst d' = map fst d \<Longrightarrow> dict_abs d' k = None \<longleftrightarrow> dict_abs d k = None"
  by (simp only: dict_abs_None)

text \<open>A field of any dict after the in-place coercion of the dict at \<open>q\<close>: a string
  value is still there, an absent key still absent.\<close>

lemma coerced_field:
  assumes "\<forall>b. b \<noteq> q \<longrightarrow> h' ! b = h ! b" and "map fst (h' ! q) = map fst (h ! q)"
    and "\<forall>j < length (h ! q). is_str (snd (h ! q ! j)) \<longrightarrow> h' ! q ! j = h ! q ! j"
  shows coerced_field_str: "dict_abs (h ! a) k = Some v \<Longrightarrow> is_str v \<Longrightarrow> dict_abs (h' ! a) k = Some v"
    and coerced_field_None: "dict_abs (h ! a) k = None \<Longrightarrow> dict_abs (h' ! a) k = None"
  using assms dict_abs_keep_str [of "h' ! q" "h ! q"] dict_abs_None_keys [of "h' ! q" "h ! q"]
  by (cases "a = q"; simp)+

lemma field_or_VDict_wf:
  "wf_heap h \<Longrightarrow> a < length h \<Longrightarrow> dict_abs (h ! a) (VStr k) = Some (VDict b) \<Longrightarrow> b < length h"
  using field_or_wf [of h a VNone k] by (simp add: field_or_def)

text \<open>A field of the coerced dict that was present holds a string afterwards.\<close>

lemma coerced_field_is_str:
  assumes keys: "map fst (h' ! q) = map fst (h ! q)" and strs: "list_all (\<lambda>(k, v). is_str v) (h' ! q)"
    and pres: "dict_abs (h ! q) k = Some v"
  shows "\<exists>x. dict_abs (h' ! q) k = Some (VStr x)"
proof -
  from pres have "dict_abs (h' ! q) k \<noteq> None" using dict_abs_None_keys [OF keys] by simp
  then obtain w where w: "dict_abs (h' ! q) k = Some w" by blast
  then obtain k' where "(k', w) \<in> set (h' ! q)" by (auto dest: dict_abs_SomeD)
  with strs have "is_str w" by (auto simp: list_all_iff)
  with w show ?thesis by (cases w) auto
qed

text \<open>
  C1. A request that names a registered statement: on a well-formed heap, when the state's
  \<open>query_parameters\<close> dict P has a string \<open>query\<close> registered to template t, the node
  runs t once on the graph, with bindings whose values are all strings, and returns one
  output with \<open>statement = t\<close>, no errors, the request's \<open>query_parameters\<close> object
  as \<open>parameters\<close>, the rows as \<open>records\<close> (the sentinel when there are none) and
  the step marker.
\<close>

theorem predefined_cypher_hit:
  assumes run: "predefined_cypher g reg (VDict st) s = (Inr out, s')" and wf: "wf_heap (mem s)"
    and qp: "dict_abs (mem s ! st) (VStr ''query_parameters'') = Some (VDict P)"
    and qk: "dict_abs (mem s ! P) (VStr ''query'') = Some (VStr key)" and hit: "reg key = Some t"
  shows "\<exists>d rows. graph_query g t d = Inr rows \<and> list_all (\<lambda>(k, v). is_str v) d \<and>
     cyphers out = [\<lparr>task = field_or (mem s' ! st) ''task'' (VStr ''''), statement = t, parameters = VDict P,
        errors = [], records = (if rows = [] then NoCypherResults else Records rows),
        steps = [''execute_predefined_cypher'']\<rparr>]"
proof (rule predefined_cypher_run [OF run wf], goal_cases)
  case (1 P' q stmt errs rows tsk)
  from 1(1) qp have P: "P' = P" "P < length (mem s)"
    using field_or_VDict_wf [OF wf 1(1) qp] 1(2) by (simp_all add: field_or_def)
  have "dict_abs ((mem s @ [[], []]) ! P) (VStr ''query'') = Some (VStr key)"
    using P qk by (simp add: nth_append)
  from coerced_field_str [OF 1(7,8,10) this] have "stmt = Some t"
    using 1(11) P hit by (simp add: field_or_def registry_get_def)
  with 1 P show ?case by (auto simp: node_output_def step_marker_def)
qed

lemma coerced_field_old:
  assumes "a < length h" and "\<forall>b. b \<noteq> q \<longrightarrow> h' ! b = (h @ xs) ! b"
    and "map fst (h' ! q) = map fst ((h @ xs) ! q)"
    and "\<forall>j < length ((h @ xs) ! q). is_str (snd ((h @ xs) ! q ! j)) \<longrightarrow> h' ! q ! j = (h @ xs) ! q ! j"
  shows coerced_field_old_str: "dict_abs (h ! a) k = Some v \<Longrightarrow> is_str v \<Longrightarrow> dict_abs (h' ! a) k = Some v"
    and coerced_field_old_None: "dict_abs (h ! a) k = None \<Longrightarrow> dict_abs (h' ! a) k = None"
  using coerced_field [OF assms(2-4), of a k] assms(1) by (simp_all add: nth_append)

text \<open>
  C2. A request whose \<open>query\<close> is absent or a string the registry does not hold: the
  node returns one output with an empty statement, the sentinel as records, and exactly one
  error, \<open>Unable to find the specified Cypher statement: <name>\<close>, where the name is
  \<open>str()\<close> of the request's \<open>query_name\<close>.
\<close>

theorem predefined_cypher_miss:
  assumes run: "predefined_cypher g reg (VDict st) s = (Inr out, s')" and wf: "wf_heap (mem s)"
    and qp: "dict_abs (mem s ! st) (VStr ''query_parameters'') = Some (VDict P)"
    and miss: "case dict_abs (mem s ! P) (VStr ''query'') of None \<Rightarrow> True | Some v \<Rightarrow> \<exists>k. v = VStr k \<and> reg k = None"
  shows "\<exists>name. py_str (mem s') (field_or (mem s ! st) ''query_name'' (VStr '''')) = Inr name \<and>
     cyphers out = [\<lparr>task = field_or (mem s' ! st) ''task'' (VStr ''''), statement = '''', parameters = VDict P,
        errors = [''Unable to find the specified Cypher statement: '' @ name], records = NoCypherResults,
        steps = [''execute_predefined_cypher'']\<rparr>]"
proof (rule predefined_cypher_run [OF run wf], goal_cases)
  case (1 P' q stmt errs rows tsk)
  from 1(1) qp have P: "P' = P" "P < length (mem s)"
    using field_or_VDict_wf [OF wf 1(1) qp] 1(2) by (simp_all add: field_or_def)
  have "stmt = None"
  proof (cases "dict_abs (mem s ! P) (VStr ''query'')")
    case None
    from coerced_field_old_None [OF P(2) 1(7,8,10) this] show ?thesis
      using 1(11) P by (simp add: field_or_def registry_get_def)
  next
    case (Some v)
    with miss obtain k where v: "v = VStr k" and k: "reg k = None" by auto
    from coerced_field_old_str [OF P(2) 1(7,8,10)] Some v have "dict_abs (mem s' ! P) (VStr ''query'') = Some (VStr k)"
      by simp
    with 1(11) P k show ?thesis by (simp add: field_or_def registry_get_def)
  qed
  with 1 P show ?case by (auto simp: node_output_def step_marker_def lookup_error_def)
qed

text \<open>
  C11. A run that reports an error never touched the graph: the same request with any other
  graph gives the same output and the same final state.
\<close>

theorem predefined_cypher_miss_graph:
  assumes run: "predefined_cypher g reg state s = (Inr out, s')" and err: "errors (hd (cyphers out)) \<noteq> []"
  shows "predefined_cypher g' reg state s = (Inr out, s')"
proof -
  from predefined_cypher_Inr [OF run] obtain st n params s1 p prm s2 stmt s3 errs rows tsk where
    rd: "read_request state s = (Inr (st, n, params), s1)" and
    co: "coerce_request params s1 = (Inr (p, prm), s2)" and
    look: "lookup_statement reg p s2 = (Inr stmt, s3)" and
    exe: "execute_statement g n prm stmt s3 = (Inr (errs, rows), s')" and
    tk: "dict_get (mem s') st (VStr ''task'') (VStr '''') = Inr tsk" and
    out: "out = node_output tsk stmt params errs rows"
    by blast
  from execute_statement_Inr [OF exe] out err have "stmt = None"
    by (cases stmt) (auto simp: node_output_def)
  with exe have "execute_statement g' n prm stmt s3 = (Inr (errs, rows), s')"
    by (simp add: execute_statement_def)
  with rd co look tk out show ?thesis
    by (simp add: predefined_cypher_def bindE_def ret_def)
qed

text \<open>
  C4. The bindings the graph receives are the entries of the request's \<open>parameters\<close>
  dict Q after the coercion: the same keys in the same order, every value a string, and
  every value that was already a string unchanged.
\<close>

theorem predefined_cypher_bindings:
  assumes run: "predefined_cypher g reg (VDict st) s = (Inr out, s')" and wf: "wf_heap (mem s)"
    and qp: "dict_abs (mem s ! st) (VStr ''query_parameters'') = Some (VDict P)"
    and pq: "dict_abs (mem s ! P) (VStr ''parameters'') = Some (VDict Q)"
    and qk: "dict_abs (mem s ! P) (VStr ''query'') = Some (VStr key)" and hit: "reg key = Some t"
  shows "\<exists>d rows. graph_query g t d = Inr rows \<and> d = mem s' ! Q \<and>
     map fst d = map fst (mem s ! Q) \<and> list_all (\<lambda>(k, v). is_str v) d \<and>
     (\<forall>j < length d. is_str (snd (mem s ! Q ! j)) \<longrightarrow> d ! j = mem s ! Q ! j)"
proof (rule predefined_cypher_run [OF run wf], goal_cases)
  case (1 P' q stmt errs rows tsk)
  from 1(1) qp have P: "P' = P" "P < length (mem s)"
    using field_or_VDict_wf [OF wf 1(1) qp] 1(2) by (simp_all add: field_or_def)
  with 1(3) pq have q: "q = Q" "Q < length (mem s)"
    using field_or_VDict_wf [OF wf P(2) pq] by (simp_all add: field_or_def nth_append)
  from coerced_field_old_str [OF P(2) 1(7,8,10) qk] have "stmt = Some t"
    using 1(11) P hit by (simp add: field_or_def registry_get_def)
  moreover have "length (mem s' ! Q) = length (mem s ! Q)"
    using arg_cong [OF 1(8), of length] q by (simp add: nth_append)
  ultimately show ?case using 1 q by (auto simp: nth_append)
qed

text \<open>
  C3. The echoed \<open>parameters\<close> is the request's own \<open>query_parameters\<close> object,
  and the coercion rewrote its \<open>parameters\<close> dict in place: after the node returns,
  the echoed object still refers to the same dict Q, whose keys are unchanged and whose
  values are now all strings. This holds on a hit and on a miss alike, so the caller's
  state is changed by every run.
\<close>

theorem predefined_cypher_echo_aliased:
  assumes run: "predefined_cypher g reg (VDict st) s = (Inr out, s')" and wf: "wf_heap (mem s)"
    and qp: "dict_abs (mem s ! st) (VStr ''query_parameters'') = Some (VDict P)"
    and pq: "dict_abs (mem s ! P) (VStr ''parameters'') = Some (VDict Q)" and PQ: "Q \<noteq> P"
  shows "\<exists>c. cyphers out = [c] \<and> parameters c = VDict P \<and>
     dict_abs (mem s' ! P) (VStr ''parameters'') = Some (VDict Q) \<and>
     map fst (mem s' ! Q) = map fst (mem s ! Q) \<and> list_all (\<lambda>(k, v). is_str v) (mem s' ! Q)"
proof (rule predefined_cypher_run [OF run wf], goal_cases)
  case (1 P' q stmt errs rows tsk)
  from 1(1) qp have P: "P' = P" "P < length (mem s)"
    using field_or_VDict_wf [OF wf 1(1) qp] 1(2) by (simp_all add: field_or_def)
  with 1(3) pq have q: "q = Q" "Q < length (mem s)"
    using field_or_VDict_wf [OF wf P(2) pq] by (simp_all add: field_or_def nth_append)
  from 1(7) q PQ P have "mem s' ! P = mem s ! P" by (simp add: nth_append)
  with 1 P q pq show ?case by (simp add: node_output_def nth_append)
qed

subsection \<open>Well-formedness on every outcome\<close>

lemma coerce_params_wf: "coerce_params p s = (r, s') \<Longrightarrow> wf_heap (mem s) \<Longrightarrow> wf_heap (mem s') \<and> length (mem s') = length (mem s)"
  by (auto simp: coerce_params_def bindE_def liftE_def heap_obj_def split: prod.splits sum.splits if_splits
      dest: coerce_items_inv)

lemma read_request_wf: "read_request state s = (r, s1) \<Longrightarrow> wf_heap (mem s) \<Longrightarrow> wf_heap (mem s1) \<and> length (mem s) \<le> length (mem s1)"
  by (auto simp: read_request_def bindE_def liftE_def ret_def alloc_dict_def wf_heap_snoc_empty
      split: prod.splits sum.splits dest!: py_print_mem)

lemma coerce_request_wf: "coerce_request params s = (r, s1) \<Longrightarrow> wf_heap (mem s) \<Longrightarrow> wf_heap (mem s1) \<and> length (mem s) \<le> length (mem s1)"
  by (auto simp: coerce_request_def bindE_def liftE_def ret_def alloc_dict_def wf_heap_snoc_empty
      split: prod.splits sum.splits dest!: coerce_params_wf)

lemma lookup_statement_mem: "lookup_statement reg p s = (r, s1) \<Longrightarrow> mem s1 = mem s"
  by (auto simp: lookup_statement_def bindE_def liftE_def ret_def split: prod.splits sum.splits dest!: py_print_mem)

lemma execute_statement_mem: "execute_statement g n prm stmt s = (r, s1) \<Longrightarrow> mem s1 = mem s"
  by (auto simp: execute_statement_def bindE_def ret_def split: option.splits prod.splits sum.splits dest!: py_print_mem)

text \<open>What each stage does to the caller's objects, on every outcome.\<close>

lemma read_request_frame: "read_request state s = (r, s1) \<Longrightarrow> mem s1 = mem s \<or> mem s1 = mem s @ [[]]"
  by (auto simp: read_request_def bindE_def liftE_def ret_def alloc_dict_def
      split: prod.splits sum.splits dest!: py_print_mem)

lemma coerce_request_frame:
  assumes c: "coerce_request params s = (r, s1)" and wf: "wf_heap (mem s)"
  shows "length (mem s1) \<le> Suc (length (mem s)) \<and> (\<exists>q. heap_frame (mem s) (mem s1) q)"
proof (cases "\<exists>p. params = VDict p")
  case True
  then obtain p where p: "params = VDict p" by blast
  let ?s = "s\<lparr>mem := mem s @ [[]]\<rparr>"
  show ?thesis
  proof (cases "dict_get (mem ?s) p (VStr ''parameters'') (VDict (length (mem s)))")
    case (Inl e)
    with c p have "s1 = ?s" by (simp add: coerce_request_def bindE_def liftE_def dict_method_def alloc_dict_def)
    then show ?thesis by auto
  next
    case (Inr v)
    with c p obtain r' where cp: "coerce_params v ?s = (r', s1)"
      by (auto simp: coerce_request_def bindE_def liftE_def dict_method_def alloc_dict_def ret_def
          split: prod.splits sum.splits)
    from coerce_params_frame [OF cp] wf_heap_snoc_empty [OF wf] obtain q where
      l: "length (mem s1) = Suc (length (mem s))" and f: "heap_frame (mem s @ [[]]) (mem s1) q" by auto
    from heap_frame_trans [OF heap_frame_append f] l show ?thesis by auto
  qed
next
  case False
  with c have "s1 = s" by (cases params) (auto simp: coerce_request_def bindE_def liftE_def dict_method_def)
  then show ?thesis by auto
qed

text \<open>The node's effect on the heap: it writes into one old object at most, keeping its keys,
  allocates two dicts at most, and keeps the heap well formed.\<close>

lemma predefined_cypher_heap:
  assumes run: "predefined_cypher g reg state s = (r, s')" and wf: "wf_heap (mem s)"
  shows "wf_heap (mem s') \<and> length (mem s') \<le> length (mem s) + 2 \<and> (\<exists>q. heap_frame (mem s) (mem s') q)"
proof (cases "read_request state s")
  case (Pair r1 s1)
  from read_request_wf [OF Pair wf] read_request_frame [OF Pair]
  have wf1: "wf_heap (mem s1)" and f1: "mem s1 = mem s \<or> mem s1 = mem s @ [[]]" by auto
  show ?thesis
  proof (cases r1)
    case (Inl e)
    with run Pair have "s' = s1" by (simp add: predefined_cypher_def bindE_def)
    with wf1 f1 show ?thesis by auto
  next
    case (Inr a)
    obtain st n params where a: "a = (st, n, params)" by (cases a) auto
    obtain r2 s2 where co: "coerce_request params s1 = (r2, s2)" by fastforce
    from coerce_request_wf [OF co wf1] coerce_request_frame [OF co wf1] obtain q where
      wf2: "wf_heap (mem s2)" and l2: "length (mem s2) \<le> Suc (length (mem s1))" and f2: "heap_frame (mem s1) (mem s2) q"
      by auto
    from f1 have "heap_frame (mem s) (mem s1) q" and "length (mem s1) \<le> Suc (length (mem s))" by auto
    with f2 have f: "heap_frame (mem s) (mem s2) q" and l: "length (mem s2) \<le> length (mem s) + 2"
      using l2 by (auto intro: heap_frame_trans)
    from run Pair Inr a co have "mem s' = mem s2"
      by (auto simp: predefined_cypher_def bindE_def ret_def split: prod.splits sum.splits
          dest!: lookup_statement_mem execute_statement_mem)
    with wf2 f l show ?thesis by auto
  qed
qed

text \<open>
  C26. The node's side effect on the caller's objects, on every outcome, exceptions included:
  it writes into one existing object at most, the parameters dict it coerces, and keeps that
  object's keys; every other object is unchanged, and at most two fresh dicts are allocated
  (the defaults \<open>dict()\<close> and \<open>{}\<close> of lines 44 and 50).
\<close>

theorem predefined_cypher_frame:
  assumes "predefined_cypher g reg state s = (r, s')" and "wf_heap (mem s)"
  shows "\<exists>q. heap_frame (mem s) (mem s') q \<and> length (mem s') \<le> length (mem s) + 2"
  using predefined_cypher_heap [OF assms] by blast

subsection \<open>Forward evaluation\<close>

lemma py_str_field_ok:
  "wf_heap h \<Longrightarrow> heap_ints_ok h \<Longrightarrow> a < length h \<Longrightarrow> wf_val h dflt \<Longrightarrow> ints_ok dflt \<Longrightarrow>
   \<not> isl (py_str h (field_or (h ! a) k dflt))"
proof -
  assume a: "wf_heap h" "heap_ints_ok h" "a < length h" "wf_val h dflt" "ints_ok dflt"
  from py_str_ok [OF a(1,2) field_or_wf [OF a(1,3,4)] field_or_ints [OF a(2,3,5)]]
  obtain r where "py_str h (field_or (h ! a) k dflt) = Inr r" by blast
  then show ?thesis by simp
qed

lemma is_str_ints_ok: "is_str v \<Longrightarrow> ints_ok v"
  by (cases v) simp_all

lemma is_str_hashable: "is_str v \<Longrightarrow> hashable v"
  by (cases v) simp_all

lemma heap_ints_ok_coerced:
  assumes ok: "heap_ints_ok h" and len: "length h' = length h" and frame: "\<forall>b. b \<noteq> q \<longrightarrow> h' ! b = h ! b"
    and keys: "map fst (h' ! q) = map fst (h ! q)" and strs: "list_all (\<lambda>(k, v). is_str v) (h' ! q)"
  shows "heap_ints_ok h'"
  unfolding heap_ints_ok_def
proof (rule list_all_length [THEN iffD2], intro allI impI)
  fix b assume b: "b < length h'"
  show "list_all (\<lambda>(k, v). ints_ok k \<and> ints_ok v) (h' ! b)"
  proof (cases "b = q")
    case True
    have "ints_ok k" if "k \<in> set (map fst (h' ! q))" for k
      using that heap_ints_ok_nth [OF ok, of q] b True len keys by (auto simp: list_all_iff)
    with strs True show ?thesis by (force simp: list_all_iff is_str_ints_ok)
  next
    case False
    with frame heap_ints_ok_nth [OF ok, of b] b len show ?thesis by simp
  qed
qed

lemma coerced_field_hashable:
  assumes "\<forall>b. b \<noteq> q \<longrightarrow> h' ! b = h ! b" and "map fst (h' ! q) = map fst (h ! q)"
    and "list_all (\<lambda>(k, v). is_str v) (h' ! q)" and "hashable (field_or (h ! a) k VNone)"
  shows "hashable (field_or (h' ! a) k VNone)"
proof (cases "a = q")
  case True
  show ?thesis
  proof (cases "dict_abs (h' ! a) (VStr k)")
    case (Some v)
    with assms(3) True have "is_str v" by (auto simp: list_all_iff dest!: dict_abs_SomeD)
    with Some show ?thesis by (simp add: field_or_def is_str_hashable)
  qed (simp add: field_or_def)
qed (use assms in simp)

lemma read_request_ok:
  assumes wf: "wf_heap (mem s)" and ints: "heap_ints_ok (mem s)" and st: "st < length (mem s)"
  shows "\<exists>s1. read_request (VDict st) s =
      (Inr (st, field_or (mem s ! st) ''query_name'' (VStr ''''),
                field_or (mem s ! st) ''query_parameters'' (VDict (length (mem s)))), s1) \<and>
      mem s1 = mem s @ [[]]"
proof -
  let ?h = "mem s @ [[]]"
  have ok: "\<not> isl (py_str ?h (field_or (mem s ! st) k dflt))" if "wf_val ?h dflt" "ints_ok dflt" for k dflt
    using py_str_field_ok [OF wf_heap_snoc_empty [OF wf] heap_ints_ok_snoc_empty [OF ints] _ that, of st k] st
    by (simp add: nth_append)
  obtain s2 where p1: "py_print [VStr ''statement_name'', field_or (mem s ! st) ''query_name'' (VStr '''')]
      (s\<lparr>mem := ?h\<rparr>) = (Inr (), s2)" and m2: "mem s2 = ?h"
    using py_print_ok_mem [of "[VStr ''statement_name'', field_or (mem s ! st) ''query_name'' (VStr '''')]"
        "s\<lparr>mem := ?h\<rparr>"] ok [of "VStr ''''"] by auto
  obtain s3 where p2: "py_print [VStr ''params'', field_or (mem s ! st) ''query_parameters'' (VDict (length (mem s)))]
      s2 = (Inr (), s3)" and m3: "mem s3 = ?h"
    using py_print_ok_mem [of "[VStr ''params'', field_or (mem s ! st) ''query_parameters'' (VDict (length (mem s)))]" s2]
      ok [of "VDict (length (mem s))"] m2 by auto
  show ?thesis using read_request_VDict [OF st] p1 p2 m3 by (simp add: bindE_def ret_def)
qed

lemma coerce_request_ok:
  assumes wf: "wf_heap (mem s)" and ints: "heap_ints_ok (mem s)" and P: "P < length (mem s)"
    and pq: "field_or (mem s ! P) ''parameters'' (VDict (length (mem s))) = VDict Q"
  shows "\<exists>s2. coerce_request (VDict P) s = (Inr (P, VDict Q), s2) \<and> wf_heap (mem s2) \<and> heap_ints_ok (mem s2) \<and>
      length (mem s2) = Suc (length (mem s)) \<and> Q < Suc (length (mem s)) \<and>
      (\<forall>b. b \<noteq> Q \<longrightarrow> mem s2 ! b = (mem s @ [[]]) ! b) \<and> map fst (mem s2 ! Q) = map fst ((mem s @ [[]]) ! Q) \<and>
      list_all (\<lambda>(k, v). is_str v) (mem s2 ! Q) \<and>
      (\<forall>j < length ((mem s @ [[]]) ! Q). is_str (snd ((mem s @ [[]]) ! Q ! j)) \<longrightarrow>
         mem s2 ! Q ! j = (mem s @ [[]]) ! Q ! j) \<and>
      coerce_items Q (length ((mem s @ [[]]) ! Q)) 0 (mem s @ [[]]) = (Inr (), mem s2)"
proof -
  let ?s = "s\<lparr>mem := mem s @ [[]]\<rparr>"
  have Q: "Q < Suc (length (mem s))"
    using pq field_or_VDict_wf [OF wf P, of "''parameters''" Q]
    by (cases "dict_abs (mem s ! P) (VStr ''parameters'')") (auto simp: field_or_def)
  have wf1: "wf_heap (mem ?s)" and ints1: "heap_ints_ok (mem ?s)"
    using wf ints by (simp_all add: wf_heap_snoc_empty heap_ints_ok_snoc_empty)
  from coerce_params_total [OF wf1 ints1, of Q] Q obtain s2 where cp: "coerce_params (VDict Q) ?s = (Inr (), s2)"
    by auto
  from coerce_params_Inr_inv [OF wf1 cp] Q have inv: "wf_heap (mem s2)" "length (mem s2) = Suc (length (mem s))"
    "\<forall>b. b \<noteq> Q \<longrightarrow> mem s2 ! b = (mem s @ [[]]) ! b" "map fst (mem s2 ! Q) = map fst ((mem s @ [[]]) ! Q)"
    "list_all (\<lambda>(k, v). is_str v) (mem s2 ! Q)"
    "\<forall>j < length ((mem s @ [[]]) ! Q). is_str (snd ((mem s @ [[]]) ! Q ! j)) \<longrightarrow>
       mem s2 ! Q ! j = (mem s @ [[]]) ! Q ! j"
    by auto
  from cp Q have ci: "coerce_items Q (length ((mem s @ [[]]) ! Q)) 0 (mem s @ [[]]) = (Inr (), mem s2)"
    by (auto simp: coerce_params_VDict split: prod.splits)
  have "heap_ints_ok (mem s2)"
    by (rule heap_ints_ok_coerced [of "mem s @ [[]]" _ Q]) (use ints1 inv in simp_all)
  moreover have "coerce_request (VDict P) s = (Inr (P, VDict Q), s2)"
  proof -
    have "dict_get (mem s @ [[]]) P (VStr ''parameters'') (VDict (length (mem s))) = Inr (VDict Q)"
      using P pq by (simp add: dict_get_Inr field_or_def nth_append)
    with P cp show ?thesis
      by (simp add: coerce_request_def bindE_def liftE_def dict_method_def alloc_dict_def ret_def)
  qed
  ultimately show ?thesis using inv Q ci by blast
qed

lemma lookup_statement_ok:
  assumes "P < length (mem s)" and "hashable (field_or (mem s ! P) ''query'' VNone)"
  shows "\<exists>s3 stmt. lookup_statement reg P s = (Inr stmt, s3) \<and> mem s3 = mem s \<and>
     registry_get reg (field_or (mem s ! P) ''query'' VNone) = Inr stmt"
proof -
  let ?q = "field_or (mem s ! P) ''query'' VNone"
  let ?stmt = "case ?q of VStr k \<Rightarrow> reg k | _ \<Rightarrow> None"
  have "\<not> isl (py_str (mem s) (case ?stmt of None \<Rightarrow> VNone | Some t \<Rightarrow> VStr t))"
    by (cases ?stmt) (simp_all add: py_str_def)
  then obtain s3 where pr: "py_print [VStr ''statement'', case ?stmt of None \<Rightarrow> VNone | Some t \<Rightarrow> VStr t] s = (Inr (), s3)"
      and m3: "mem s3 = mem s"
    using py_print_ok_mem [of "[VStr ''statement'', case ?stmt of None \<Rightarrow> VNone | Some t \<Rightarrow> VStr t]" s] by auto
  have get: "dict_get (mem s) P (VStr ''query'') VNone = Inr ?q"
    using assms(1) by (simp add: dict_get_Inr field_or_def)
  show ?thesis
    using get pr m3 assms(2) by (simp add: lookup_statement_def bindE_def liftE_def registry_get_def ret_def)
qed

lemma lookup_statement_unhashable:
  "P < length (mem s) \<Longrightarrow> \<not> hashable (field_or (mem s ! P) ''query'' VNone) \<Longrightarrow>
   lookup_statement reg P s = (Inl (unhashable_error (field_or (mem s ! P) ''query'' VNone)), s)"
proof -
  assume "P < length (mem s)" and h: "\<not> hashable (field_or (mem s ! P) ''query'' VNone)"
  then have "dict_get (mem s) P (VStr ''query'') VNone = Inr (field_or (mem s ! P) ''query'' VNone)"
    by (simp add: dict_get_Inr field_or_def)
  with h show ?thesis by (simp add: lookup_statement_def bindE_def liftE_def registry_get_def)
qed

lemma execute_statement_ok:
  assumes "wf_heap (mem s)" and "heap_ints_ok (mem s)" and "wf_val (mem s) n" and "ints_ok n"
    and "Q < length (mem s)" and "\<forall>t. stmt = Some t \<longrightarrow> \<not> isl (graph_query g t (mem s ! Q))"
  shows "\<exists>r s'. execute_statement g n (VDict Q) stmt s = (Inr r, s') \<and> mem s' = mem s"
proof (cases stmt)
  case None
  from py_str_ok [OF assms(1-4)] obtain name where "py_str (mem s) n = Inr name" by blast
  with None show ?thesis by (simp add: execute_statement_def bindE_def ret_def)
next
  case (Some t)
  with assms(6) obtain rows where q: "graph_query g t (mem s ! Q) = Inr rows" by (cases "graph_query g t (mem s ! Q)") auto
  obtain s' where "py_print [VStr (''records: '' @ graph_records_str g rows)] s = (Inr (), s')" and "mem s' = mem s"
    using py_print_ok_mem [of "[VStr (''records: '' @ graph_records_str g rows)]" s] by auto
  with Some q assms(5) show ?thesis
    by (simp add: execute_statement_def bindE_def ret_def dict_entries_def)
qed

text \<open>The execution stage on a bindings dict in the heap: the miss message, or the rows
  or the exception of the graph.\<close>

lemma execute_statement_outcome:
  assumes Q: "Q < length (mem s)" and b: "mem s ! Q = b"
  shows "\<exists>s'. execute_statement g (VStr name) (VDict Q) stmt s =
      (case stmt of None \<Rightarrow> Inr ([lookup_error name], [])
                  | Some t \<Rightarrow> map_sum id (\<lambda>rows. ([], rows)) (graph_query g t b), s') \<and> mem s' = mem s"
proof (cases stmt)
  case None
  then show ?thesis by (simp add: execute_statement_def bindE_def ret_def py_str_def)
next
  case (Some t)
  show ?thesis
  proof (cases "graph_query g t b")
    case (Inr rows)
    obtain s' where "py_print [VStr (''records: '' @ graph_records_str g rows)] s = (Inr (), s')"
      and "mem s' = mem s"
      using py_print_ok_mem [of "[VStr (''records: '' @ graph_records_str g rows)]" s] by auto
    with Some Inr Q b show ?thesis by (simp add: execute_statement_def bindE_def dict_entries_def ret_def)
  qed (use Some Q b in \<open>simp add: execute_statement_def bindE_def dict_entries_def\<close>)
qed

text \<open>The node up to the registry lookup, on a request whose bag and parameters, present or
  defaulted, are dicts.\<close>

lemma predefined_cypher_prefix_gen:
  assumes wf: "wf_heap (mem s)" and ints: "heap_ints_ok (mem s)" and st: "st < length (mem s)"
    and bag: "field_or (mem s ! st) ''query_parameters'' (VDict (length (mem s))) = VDict P"
    and pars: "field_or ((mem s @ [[]]) ! P) ''parameters'' (VDict (Suc (length (mem s)))) = VDict Q"
  obtains s2 where
    "predefined_cypher g reg (VDict st) s =
      bindE (lookup_statement reg P) (\<lambda>stmt.
      bindE (execute_statement g (field_or (mem s ! st) ''query_name'' (VStr '''')) (VDict Q) stmt) (\<lambda>(errs, rows).
      bindE (\<lambda>s. (dict_get (mem s) st (VStr ''task'') (VStr ''''), s)) (\<lambda>tsk.
      ret (node_output tsk stmt (VDict P) errs rows)))) s2"
    "wf_heap (mem s2)" "heap_ints_ok (mem s2)" "length (mem s2) = length (mem s) + 2"
    "P < Suc (length (mem s))" "Q < length (mem s) + 2"
    "\<forall>b. b \<noteq> Q \<longrightarrow> mem s2 ! b = (mem s @ [[], []]) ! b"
    "map fst (mem s2 ! Q) = map fst ((mem s @ [[], []]) ! Q)" "list_all (\<lambda>(k, v). is_str v) (mem s2 ! Q)"
    "\<forall>j < length ((mem s @ [[], []]) ! Q). is_str (snd ((mem s @ [[], []]) ! Q ! j)) \<longrightarrow>
       mem s2 ! Q ! j = (mem s @ [[], []]) ! Q ! j"
    "coerce_items Q (length ((mem s @ [[], []]) ! Q)) 0 (mem s @ [[], []]) = (Inr (), mem s2)"
proof -
  from read_request_ok [OF wf ints st] bag obtain s1 where
    rd: "read_request (VDict st) s = (Inr (st, field_or (mem s ! st) ''query_name'' (VStr ''''), VDict P), s1)"
    and m1: "mem s1 = mem s @ [[]]"
    by auto
  have P: "P < Suc (length (mem s))"
    using bag field_or_VDict_wf [OF wf st, of "''query_parameters''" P]
    by (cases "dict_abs (mem s ! st) (VStr ''query_parameters'')") (auto simp: field_or_def)
  have wf1: "wf_heap (mem s1)" and ints1: "heap_ints_ok (mem s1)" and P1: "P < length (mem s1)"
    and pq1: "field_or (mem s1 ! P) ''parameters'' (VDict (length (mem s1))) = VDict Q"
    using wf ints P pars m1 by (simp_all add: wf_heap_snoc_empty heap_ints_ok_snoc_empty)
  from coerce_request_ok [OF wf1 ints1 P1 pq1] obtain s2 where
    co: "coerce_request (VDict P) s1 = (Inr (P, VDict Q), s2)" and
    inv: "wf_heap (mem s2)" "heap_ints_ok (mem s2)" "length (mem s2) = Suc (length (mem s1))"
      "Q < Suc (length (mem s1))"
      "\<forall>b. b \<noteq> Q \<longrightarrow> mem s2 ! b = (mem s1 @ [[]]) ! b" "map fst (mem s2 ! Q) = map fst ((mem s1 @ [[]]) ! Q)"
      "list_all (\<lambda>(k, v). is_str v) (mem s2 ! Q)"
      "\<forall>j < length ((mem s1 @ [[]]) ! Q). is_str (snd ((mem s1 @ [[]]) ! Q ! j)) \<longrightarrow>
         mem s2 ! Q ! j = (mem s1 @ [[]]) ! Q ! j"
      "coerce_items Q (length ((mem s1 @ [[]]) ! Q)) 0 (mem s1 @ [[]]) = (Inr (), mem s2)"
    by blast
  have "predefined_cypher g reg (VDict st) s =
      bindE (lookup_statement reg P) (\<lambda>stmt.
      bindE (execute_statement g (field_or (mem s ! st) ''query_name'' (VStr '''')) (VDict Q) stmt) (\<lambda>(errs, rows).
      bindE (\<lambda>s. (dict_get (mem s) st (VStr ''task'') (VStr ''''), s)) (\<lambda>tsk.
      ret (node_output tsk stmt (VDict P) errs rows)))) s2"
    unfolding predefined_cypher_def using rd co by (simp add: bindE_def)
  with inv m1 P show ?thesis by (intro that [of s2]) simp_all
qed

text \<open>The same, on a request whose parameters are present dicts.\<close>

lemma predefined_cypher_prefix:
  assumes wf: "wf_heap (mem s)" and ints: "heap_ints_ok (mem s)" and st: "st < length (mem s)"
    and qp: "dict_abs (mem s ! st) (VStr ''query_parameters'') = Some (VDict P)"
    and pq: "dict_abs (mem s ! P) (VStr ''parameters'') = Some (VDict Q)"
  obtains s2 where
    "predefined_cypher g reg (VDict st) s =
      bindE (lookup_statement reg P) (\<lambda>stmt.
      bindE (execute_statement g (field_or (mem s ! st) ''query_name'' (VStr '''')) (VDict Q) stmt) (\<lambda>(errs, rows).
      bindE (\<lambda>s. (dict_get (mem s) st (VStr ''task'') (VStr ''''), s)) (\<lambda>tsk.
      ret (node_output tsk stmt (VDict P) errs rows)))) s2"
    "wf_heap (mem s2)" "heap_ints_ok (mem s2)" "length (mem s2) = length (mem s) + 2"
    "P < length (mem s)" "Q < length (mem s)"
    "\<forall>b. b \<noteq> Q \<longrightarrow> mem s2 ! b = (mem s @ [[], []]) ! b"
    "map fst (mem s2 ! Q) = map fst ((mem s @ [[], []]) ! Q)" "list_all (\<lambda>(k, v). is_str v) (mem s2 ! Q)"
    "\<forall>j < length ((mem s @ [[], []]) ! Q). is_str (snd ((mem s @ [[], []]) ! Q ! j)) \<longrightarrow>
       mem s2 ! Q ! j = (mem s @ [[], []]) ! Q ! j"
proof -
  have P: "P < length (mem s)" by (rule field_or_VDict_wf [OF wf st qp])
  have Q: "Q < length (mem s)" by (rule field_or_VDict_wf [OF wf P pq])
  have bag: "field_or (mem s ! st) ''query_parameters'' (VDict (length (mem s))) = VDict P"
    and pars: "field_or ((mem s @ [[]]) ! P) ''parameters'' (VDict (Suc (length (mem s)))) = VDict Q"
    using qp pq P by (simp_all add: field_or_def nth_append)
  from predefined_cypher_prefix_gen [OF wf ints st bag pars, where g = g and reg = reg] P Q that
  show ?thesis by blast
qed

lemma field_or_wf_ints:
  assumes "wf_heap h" and "heap_ints_ok h" and "a < length h" and "wf_val h dflt" and "ints_ok dflt"
    and "length h \<le> length h'"
  shows "wf_val h' (field_or (h ! a) k dflt) \<and> ints_ok (field_or (h ! a) k dflt)"
  using wf_val_mono [OF field_or_wf [OF assms(1,3,4)] assms(6)] field_or_ints [OF assms(2,3,5)] by blast

text \<open>
  C5. The node returns. On a well-formed heap with no int over the 4300-digit limit, a request
  whose \<open>query_parameters\<close> and \<open>parameters\<close> are dicts and whose
  \<open>query\<close> is hashable produces an output, as long as the graph answers its queries.
\<close>

theorem predefined_cypher_returns:
  assumes wf: "wf_heap (mem s)" and ints: "heap_ints_ok (mem s)" and st: "st < length (mem s)"
    and qp: "dict_abs (mem s ! st) (VStr ''query_parameters'') = Some (VDict P)"
    and pq: "dict_abs (mem s ! P) (VStr ''parameters'') = Some (VDict Q)"
    and hq: "hashable (field_or (mem s ! P) ''query'' VNone)"
    and db: "\<And>t d. \<not> isl (graph_query g t d)"
  shows "\<exists>out s'. predefined_cypher g reg (VDict st) s = (Inr out, s')"
proof (rule predefined_cypher_prefix [OF wf ints st qp pq, where g = g and reg = reg], goal_cases)
  case (1 s2)
  have P2: "P < length (mem s2)" using 1(4,5) by simp
  have "hashable (field_or (mem s2 ! P) ''query'' VNone)"
    using coerced_field_hashable [OF 1(7,8,9), of P "''query''"] hq 1(5) by (simp add: nth_append)
  from lookup_statement_ok [OF P2 this] obtain s3 stmt where
    look: "lookup_statement reg P s2 = (Inr stmt, s3)" and m3: "mem s3 = mem s2" by blast
  let ?n = "field_or (mem s ! st) ''query_name'' (VStr '''')"
  have n: "wf_val (mem s3) ?n \<and> ints_ok ?n"
    by (rule field_or_wf_ints [OF wf ints st]) (use 1(4) m3 in simp_all)
  from execute_statement_ok [of s3 ?n Q stmt g] 1(2,3,4,6) m3 n db obtain r s4 where
    exe: "execute_statement g ?n (VDict Q) stmt s3 = (Inr r, s4)" and m4: "mem s4 = mem s3"
    by auto
  from st 1(4) m3 m4 obtain tsk where "dict_get (mem s4) st (VStr ''task'') (VStr '''') = Inr tsk"
    by (simp add: dict_get_Inr)
  with 1(1) look exe show ?case by (cases r) (simp add: bindE_def ret_def)
qed

text \<open>
  C6. A database error is not caught: when the registered statement's query raises, the node
  raises the same exception and returns no output.
\<close>

theorem predefined_cypher_db_error:
  assumes wf: "wf_heap (mem s)" and ints: "heap_ints_ok (mem s)" and st: "st < length (mem s)"
    and qp: "dict_abs (mem s ! st) (VStr ''query_parameters'') = Some (VDict P)"
    and pq: "dict_abs (mem s ! P) (VStr ''parameters'') = Some (VDict Q)"
    and qk: "dict_abs (mem s ! P) (VStr ''query'') = Some (VStr key)" and hit: "reg key = Some t"
    and db: "\<And>d. graph_query g t d = Inl e"
  shows "\<exists>s'. predefined_cypher g reg (VDict st) s = (Inl e, s')"
proof (rule predefined_cypher_prefix [OF wf ints st qp pq, where g = g and reg = reg], goal_cases)
  case (1 s2)
  have P2: "P < length (mem s2)" using 1(4,5) by simp
  have "dict_abs (mem s2 ! P) (VStr ''query'') = Some (VStr key)"
    using coerced_field_old_str [OF 1(5) 1(7,8,10) qk] by simp
  then have q: "field_or (mem s2 ! P) ''query'' VNone = VStr key" by (simp add: field_or_def)
  from lookup_statement_ok [OF P2] q obtain s3 stmt where
    look: "lookup_statement reg P s2 = (Inr stmt, s3)" and m3: "mem s3 = mem s2"
    and reg: "registry_get reg (VStr key) = Inr stmt" by fastforce
  from reg hit have "stmt = Some t" by (simp add: registry_get_def)
  with db 1(4,6) m3 have "execute_statement g (field_or (mem s ! st) ''query_name'' (VStr '''')) (VDict Q) stmt s3 =
      (Inl e, s3)"
    by (simp add: execute_statement_def bindE_def dict_entries_def)
  with 1(1) look show ?case by (simp add: bindE_def)
qed

text \<open>
  C7. A list or dict as \<open>query\<close> is not a lookup miss: \<open>dict.get\<close> on the
  registry raises \<open>TypeError: unhashable type\<close>, and the node returns no output.
\<close>

theorem predefined_cypher_unhashable_query:
  assumes wf: "wf_heap (mem s)" and ints: "heap_ints_ok (mem s)" and st: "st < length (mem s)"
    and qp: "dict_abs (mem s ! st) (VStr ''query_parameters'') = Some (VDict P)"
    and pq: "dict_abs (mem s ! P) (VStr ''parameters'') = Some (VDict Q)"
    and qv: "dict_abs (mem s ! P) (VStr ''query'') = Some v" and uh: "\<not> hashable v" and PQ: "P \<noteq> Q"
  shows "\<exists>s'. predefined_cypher g reg (VDict st) s = (Inl (unhashable_error v), s')"
proof (rule predefined_cypher_prefix [OF wf ints st qp pq, where g = g and reg = reg], goal_cases)
  case (1 s2)
  have P2: "P < length (mem s2)" using 1(4,5) by simp
  from 1(5,7) PQ have "mem s2 ! P = mem s ! P" by (simp add: nth_append)
  with qv have "field_or (mem s2 ! P) ''query'' VNone = v" by (simp add: field_or_def)
  with lookup_statement_unhashable [OF P2, of reg] uh
  have "lookup_statement reg P s2 = (Inl (unhashable_error v), s2)" by simp
  with 1(1) show ?case by (simp add: bindE_def)
qed

subsection \<open>The digit limit and the output on the terminal\<close>

lemma py_str_nested_int:
  assumes P: "P < length h" and Q: "Q < length h" and PQ: "P \<noteq> Q"
    and pq: "(k', VDict Q) \<in> set (h ! P)" and big: "(k, VInt i) \<in> set (h ! Q)"
    and lim: "(10::int) ^ int_max_str_digits \<le> \<bar>i\<bar>"
  shows "isl (py_str h (VDict P))"
proof -
  from lim have "isl (py_repr h [Q, P] (VInt i))" by (simp add: int_repr_limit)
  from repr_items_isl [OF big this] have "isl (repr_items h [Q, P] (h ! Q))" .
  with Q PQ have "isl (py_repr h [P] (VDict Q))" by (auto simp: sbind_case split: sum.splits)
  from repr_items_isl [OF pq this] have "isl (repr_items h [P] (h ! P))" .
  with P show ?thesis by (auto simp: py_str_def sbind_case split: sum.splits)
qed

text \<open>
  C19. An int over the digit limit in the bindings is not coerced: \<open>print("params", params)\<close>
  at line 47 computes \<open>str\<close> of the bag first and raises CPython's \<open>ValueError\<close>
  there, before the loop of lines 51--52 runs. The caller's objects are left as they were;
  only the default dict of line 44 has been allocated. The spec's claim that coercion is
  total (section 7) fails earlier than the coercion.
\<close>

theorem predefined_cypher_int_limit:
  assumes wf: "wf_heap (mem s)" and st: "st < length (mem s)"
    and qp: "dict_abs (mem s ! st) (VStr ''query_parameters'') = Some (VDict P)"
    and pq: "dict_abs (mem s ! P) (VStr ''parameters'') = Some (VDict Q)" and PQ: "P \<noteq> Q"
    and big: "(k, VInt i) \<in> set (mem s ! Q)" and lim: "(10::int) ^ int_max_str_digits \<le> \<bar>i\<bar>"
  shows "\<exists>s'. predefined_cypher g reg (VDict st) s = (Inl int_str_limit_error, s') \<and> mem s' = mem s @ [[]]"
proof -
  let ?h = "mem s @ [[]]" and ?n = "field_or (mem s ! st) ''query_name'' (VStr '''')"
  have P: "P < length (mem s)" by (rule field_or_VDict_wf [OF wf st qp])
  have Q: "Q < length (mem s)" by (rule field_or_VDict_wf [OF wf P pq])
  have wf1: "wf_heap ?h" by (rule wf_heap_snoc_empty [OF wf])
  from pq obtain k' where "(k', VDict Q) \<in> set (mem s ! P)" by (auto dest: dict_abs_SomeD)
  with P Q have "isl (py_str ?h (VDict P))"
    by (intro py_str_nested_int [OF _ _ PQ _ _ lim, of _ k' k]) (use big in \<open>simp_all add: nth_append\<close>)
  then obtain e where "py_str ?h (VDict P) = Inl e" by (cases "py_str ?h (VDict P)") auto
  moreover have "wf_val ?h (VDict P)" using P by simp
  ultimately have e2: "py_str ?h (VDict P) = Inl int_str_limit_error" using py_str_error [OF wf1] by blast
  have bag: "field_or (mem s ! st) ''query_parameters'' (VDict (length (mem s))) = VDict P"
    using qp by (simp add: field_or_def)
  have "\<exists>s1. read_request (VDict st) s = (Inl int_str_limit_error, s1) \<and> mem s1 = ?h"
  proof (cases "py_str ?h ?n")
    case (Inl e1)
    have "wf_val ?h ?n" using field_or_wf [OF wf st, of "VStr ''''" "''query_name''"] wf_val_snoc by auto
    with Inl py_str_error [OF wf1] have "py_str ?h ?n = Inl int_str_limit_error" by blast
    from py_print_label_Inl [of "s\<lparr>mem := ?h\<rparr>", OF _, of ?n _ "''statement_name''"] this
    show ?thesis using read_request_VDict [OF st] by (auto simp: bindE_def)
  next
    case (Inr t)
    obtain s2 where p1: "py_print [VStr ''statement_name'', ?n] (s\<lparr>mem := ?h\<rparr>) = (Inr (), s2)" and m2: "mem s2 = ?h"
      using py_print_label [of "s\<lparr>mem := ?h\<rparr>" ?n t "''statement_name''"] Inr by auto
    from py_print_label_Inl [of s2 "VDict P" int_str_limit_error "''params''"] e2 m2
    obtain s3 where "py_print [VStr ''params'', VDict P] s2 = (Inl int_str_limit_error, s3)" and "mem s3 = ?h"
      by auto
    with p1 bag show ?thesis using read_request_VDict [OF st] by (simp add: bindE_def)
  qed
  then show ?thesis by (auto simp: predefined_cypher_def bindE_def)
qed

text \<open>What each stage writes on the terminal.\<close>

lemma coerce_request_stdout: "coerce_request params s = (r, s') \<Longrightarrow> stdout s' = stdout s"
  by (auto simp: coerce_request_def bindE_def liftE_def ret_def alloc_dict_def
      split: prod.splits sum.splits dest!: coerce_params_stdout)

lemma read_request_stdout:
  assumes "read_request (VDict st) s = (Inr (st', n, params), s1)" and st: "st < length (mem s)"
  shows "\<exists>tn tb. py_str (mem s @ [[]]) n = Inr tn \<and> py_str (mem s @ [[]]) params = Inr tb \<and>
    stdout s1 = stdout s @ ''statement_name'' @ CHR '' '' # tn @ [CHR 0x0A] @ ''params'' @ CHR '' '' # tb @ [CHR 0x0A]"
proof -
  let ?s0 = "s\<lparr>mem := mem s @ [[]]\<rparr>"
  from read_request_Inr [OF assms(1)] have n: "n = field_or (mem s ! st) ''query_name'' (VStr '''')"
    and p: "params = field_or (mem s ! st) ''query_parameters'' (VDict (length (mem s)))" by auto
  from assms(1) obtain s2 s3 where p1: "py_print [VStr ''statement_name'', n] ?s0 = (Inr (), s2)"
    and p2: "py_print [VStr ''params'', params] s2 = (Inr (), s3)" and s1: "s1 = s3"
    by (auto simp: read_request_VDict [OF st] bindE_eq_Inr ret_def n p)
  from py_print_label_Inr [OF p1] obtain tn where tn: "py_str (mem s @ [[]]) n = Inr tn"
    and o2: "stdout s2 = stdout s @ ''statement_name'' @ CHR '' '' # tn @ [CHR 0x0A]" by auto
  from py_print_label_Inr [OF p2] py_print_mem [OF p1] obtain tb where tb: "py_str (mem s @ [[]]) params = Inr tb"
    and o3: "stdout s3 = stdout s2 @ ''params'' @ CHR '' '' # tb @ [CHR 0x0A]" by auto
  from tn tb o2 o3 s1 show ?thesis by simp
qed

lemma lookup_statement_stdout:
  "lookup_statement reg p s = (Inr stmt, s') \<Longrightarrow>
   stdout s' = stdout s @ ''statement'' @ CHR '' '' # (case stmt of None \<Rightarrow> ''None'' | Some t \<Rightarrow> t) @ [CHR 0x0A]"
  by (cases stmt)
     (auto simp: lookup_statement_def bindE_eq_Inr ret_def liftE_def py_str_def dest!: py_print_label_Inr)

lemma execute_statement_stdout:
  "execute_statement g n prm stmt s = (Inr (errs, rows), s') \<Longrightarrow>
   stdout s' = stdout s @ (case stmt of None \<Rightarrow> [] | Some t \<Rightarrow> ''records: '' @ graph_records_str g rows @ [CHR 0x0A])"
  by (cases stmt) (auto simp: execute_statement_def bindE_eq_Inr ret_def py_print_single)

text \<open>
  C21. The terminal output of every returning run (lines 46, 47, 55 and 58), in this order:
  \<open>statement_name\<close> with \<open>str\<close> of \<open>query_name\<close>; \<open>params\<close> with
  \<open>str\<close> of the bag as it was before the coercion (so the log shows the original values,
  not the strings the database receives); \<open>statement\<close> with the template, or
  \<open>None\<close> on a miss while the output's \<open>statement\<close> is empty; and on a hit only, the
  records line.
\<close>

theorem predefined_cypher_stdout:
  assumes run: "predefined_cypher g reg (VDict st) s = (Inr out, s')"
  shows "\<exists>tn tb stmt rows.
    py_str (mem s @ [[]]) (field_or (mem s ! st) ''query_name'' (VStr '''')) = Inr tn \<and>
    py_str (mem s @ [[]]) (field_or (mem s ! st) ''query_parameters'' (VDict (length (mem s)))) = Inr tb \<and>
    map statement (cyphers out) = [case stmt of None \<Rightarrow> '''' | Some t \<Rightarrow> t] \<and>
    map records (cyphers out) = [if rows = [] then NoCypherResults else Records rows] \<and>
    stdout s' = stdout s @ ''statement_name'' @ CHR '' '' # tn @ [CHR 0x0A] @ ''params'' @ CHR '' '' # tb @ [CHR 0x0A] @
      ''statement'' @ CHR '' '' # (case stmt of None \<Rightarrow> ''None'' | Some t \<Rightarrow> t) @ [CHR 0x0A] @
      (case stmt of None \<Rightarrow> [] | Some t \<Rightarrow> ''records: '' @ graph_records_str g rows @ [CHR 0x0A])"
proof -
  from predefined_cypher_Inr [OF run] obtain st' n params s1 p prm s2 stmt s3 errs rows tsk where
    rd: "read_request (VDict st) s = (Inr (st', n, params), s1)" and
    co: "coerce_request params s1 = (Inr (p, prm), s2)" and
    look: "lookup_statement reg p s2 = (Inr stmt, s3)" and
    exe: "execute_statement g n prm stmt s3 = (Inr (errs, rows), s')" and
    out: "out = node_output tsk stmt params errs rows"
    by blast
  from read_request_Inr [OF rd] have st: "st < length (mem s)"
    and n: "n = field_or (mem s ! st) ''query_name'' (VStr '''')"
    and params: "params = field_or (mem s ! st) ''query_parameters'' (VDict (length (mem s)))" by auto
  from read_request_stdout [OF rd st] obtain tn tb where
    "py_str (mem s @ [[]]) n = Inr tn" "py_str (mem s @ [[]]) params = Inr tb"
    "stdout s1 = stdout s @ ''statement_name'' @ CHR '' '' # tn @ [CHR 0x0A] @ ''params'' @ CHR '' '' # tb @ [CHR 0x0A]"
    by blast
  with coerce_request_stdout [OF co] lookup_statement_stdout [OF look] execute_statement_stdout [OF exe] n params out
  show ?thesis by (intro exI [of _ tn] exI [of _ tb] exI [of _ stmt] exI [of _ rows]) (simp add: node_output_def)
qed

subsection \<open>The claims on the example request\<close>

lemma example_wf: "wf_heap (mem example_state)"
  by (simp add: wf_heap_def wf_dict_def)

lemma example_ints: "heap_ints_ok (mem example_state)"
  by code_simp

lemma example_fields:
  "dict_abs (mem example_state ! 2) (VStr ''query_parameters'') = Some (VDict 1)"
  "dict_abs (mem example_state ! 1) (VStr ''parameters'') = Some (VDict 0)"
  "dict_abs (mem example_state ! 1) (VStr ''query'') = Some (VStr ''find_person'')"
  by (simp_all add: dict_abs_def)

lemma example_hit_run:
  "\<exists>s'. predefined_cypher example_graph example_registry (VDict 2) example_state = (Inr example_hit_output, s')"
proof -
  have "fst (predefined_cypher example_graph example_registry (VDict 2) example_state) = Inr example_hit_output"
    by code_simp
  then show ?thesis by (rule fst_eq_pair)
qed

lemma example_miss_run:
  "\<exists>s'. predefined_cypher example_graph Map.empty (VDict 2) example_state = (Inr example_miss_output, s')"
proof -
  have "fst (predefined_cypher example_graph Map.empty (VDict 2) example_state) = Inr example_miss_output"
    by code_simp
  then show ?thesis by (rule fst_eq_pair)
qed

theorem predefined_cypher_hit_witness:
  "\<exists>s'. predefined_cypher example_graph example_registry (VDict 2) example_state = (Inr example_hit_output, s') \<and>
     (\<exists>d rows. graph_query example_graph example_statement d = Inr rows \<and> list_all (\<lambda>(k, v). is_str v) d \<and>
       cyphers example_hit_output =
         [\<lparr>task = field_or (mem s' ! 2) ''task'' (VStr ''''), statement = example_statement,
           parameters = VDict 1, errors = [], records = (if rows = [] then NoCypherResults else Records rows),
           steps = [''execute_predefined_cypher'']\<rparr>])"
proof -
  obtain s' where run: "predefined_cypher example_graph example_registry (VDict 2) example_state =
      (Inr example_hit_output, s')" using example_hit_run by blast
  from predefined_cypher_hit [OF run example_wf example_fields(1,3)] run show ?thesis by auto
qed

theorem predefined_cypher_miss_witness:
  "\<exists>s'. predefined_cypher example_graph Map.empty (VDict 2) example_state = (Inr example_miss_output, s') \<and>
     (\<exists>name. py_str (mem s') (VStr ''find_person'') = Inr name \<and>
       cyphers example_miss_output =
         [\<lparr>task = field_or (mem s' ! 2) ''task'' (VStr ''''), statement = '''', parameters = VDict 1,
           errors = [''Unable to find the specified Cypher statement: '' @ name], records = NoCypherResults, steps = [''execute_predefined_cypher'']\<rparr>])"
proof -
  obtain s' where run: "predefined_cypher example_graph Map.empty (VDict 2) example_state =
      (Inr example_miss_output, s')" using example_miss_run by blast
  have miss: "case dict_abs (mem example_state ! 1) (VStr ''query'') of None \<Rightarrow> True
      | Some v \<Rightarrow> \<exists>k. v = VStr k \<and> Map.empty k = (None :: string option)"
    by (simp add: dict_abs_def)
  from predefined_cypher_miss [OF run example_wf example_fields(1) miss] run
  show ?thesis by (auto simp: field_or_def dict_abs_def)
qed


theorem predefined_cypher_echo_aliased_witness:
  "\<exists>s'. predefined_cypher example_graph example_registry (VDict 2) example_state = (Inr example_hit_output, s') \<and>
     (\<exists>c. cyphers example_hit_output = [c] \<and> parameters c = VDict 1 \<and>
        dict_abs (mem s' ! 1) (VStr ''parameters'') = Some (VDict 0) \<and>
        map fst (mem s' ! 0) = [VStr ''id''] \<and> list_all (\<lambda>(k, v). is_str v) (mem s' ! 0))"
proof -
  obtain s' where run: "predefined_cypher example_graph example_registry (VDict 2) example_state =
      (Inr example_hit_output, s')" using example_hit_run by blast
  from predefined_cypher_echo_aliased [OF run example_wf example_fields(1,2)] run show ?thesis by auto
qed

theorem predefined_cypher_bindings_witness:
  "\<exists>s'. predefined_cypher example_graph example_registry (VDict 2) example_state = (Inr example_hit_output, s') \<and>
     (\<exists>d rows. graph_query example_graph example_statement d = Inr rows \<and> d = mem s' ! 0 \<and>
        map fst d = [VStr ''id''] \<and> list_all (\<lambda>(k, v). is_str v) d)"
proof -
  obtain s' where run: "predefined_cypher example_graph example_registry (VDict 2) example_state =
      (Inr example_hit_output, s')" using example_hit_run by blast
  from predefined_cypher_bindings [OF run example_wf example_fields(1,2,3)] run show ?thesis by auto
qed

theorem predefined_cypher_returns_witness:
  "\<exists>out s'. predefined_cypher example_graph example_registry (VDict 2) example_state = (Inr out, s')"
proof (rule predefined_cypher_returns [OF example_wf example_ints _ example_fields(1,2)])
  show "hashable (field_or (mem example_state ! 1) ''query'' VNone)" by (simp add: field_or_def dict_abs_def)
qed simp_all

theorem predefined_cypher_db_error_witness:
  "\<exists>s'. predefined_cypher failing_graph example_registry (VDict 2) example_state =
     (Inl (DatabaseError ''connection refused''), s')"
  by (rule predefined_cypher_db_error [OF example_wf example_ints _ example_fields(1,2,3)]) simp_all

theorem predefined_cypher_unhashable_query_witness:
  "\<exists>s'. predefined_cypher example_graph example_registry (VDict 2) list_query_state =
     (Inl (unhashable_error (VList [VStr ''find_person''])), s')"
proof (rule predefined_cypher_unhashable_query [where st = 2 and P = 1 and Q = 0])
  show "wf_heap (mem list_query_state)" by (simp add: wf_heap_def wf_dict_def)
  show "heap_ints_ok (mem list_query_state)" by code_simp
qed (simp_all add: dict_abs_def)

theorem predefined_cypher_errors_statement_witness:
  "\<exists>s'. predefined_cypher example_graph example_registry (VDict 2) example_state = (Inr example_hit_output, s') \<and>
     (\<exists>c. cyphers example_hit_output = [c] \<and> (errors c \<noteq> [] \<longleftrightarrow> statement c = ''''))"
proof -
  obtain s' where run: "predefined_cypher example_graph example_registry (VDict 2) example_state =
      (Inr example_hit_output, s')" using example_hit_run by blast
  have "'''' \<notin> ran example_registry" by simp
  from predefined_cypher_errors_statement [OF run this] run show ?thesis by blast
qed

theorem predefined_cypher_records_witness:
  "\<exists>s'. predefined_cypher example_graph Map.empty (VDict 2) example_state = (Inr example_miss_output, s') \<and>
     (\<exists>c. cyphers example_miss_output = [c] \<and> records c \<noteq> Records [] \<and>
        (errors c \<noteq> [] \<longrightarrow> records c = NoCypherResults))"
proof -
  obtain s' where run: "predefined_cypher example_graph Map.empty (VDict 2) example_state =
      (Inr example_miss_output, s')" using example_miss_run by blast
  from predefined_cypher_records [OF run] run show ?thesis by blast
qed

theorem predefined_cypher_one_outcome_witness:
  "\<exists>s'. predefined_cypher example_graph example_registry (VDict 2) example_state = (Inr example_hit_output, s') \<and>
     (\<exists>c. cyphers example_hit_output = [c] \<and> steps c = [''execute_predefined_cypher''] \<and>
        update_steps example_hit_output = [''execute_predefined_cypher''])"
proof -
  obtain s' where run: "predefined_cypher example_graph example_registry (VDict 2) example_state =
      (Inr example_hit_output, s')" using example_hit_run by blast
  from predefined_cypher_one_outcome [OF run] run show ?thesis by blast
qed

theorem predefined_cypher_miss_graph_witness:
  "\<exists>s'. predefined_cypher example_graph Map.empty (VDict 2) example_state = (Inr example_miss_output, s') \<and>
     predefined_cypher failing_graph Map.empty (VDict 2) example_state = (Inr example_miss_output, s')"
proof -
  obtain s' where run: "predefined_cypher example_graph Map.empty (VDict 2) example_state =
      (Inr example_miss_output, s')" using example_miss_run by blast
  have "errors (hd (cyphers example_miss_output)) \<noteq> []" by (simp add: node_output_def)
  from predefined_cypher_miss_graph [OF run this] run show ?thesis by blast
qed

theorem predefined_cypher_frame_witness:
  "\<exists>r s' q. predefined_cypher failing_graph example_registry (VDict 2) example_state = (r, s') \<and>
     heap_frame (mem example_state) (mem s') q \<and> length (mem s') \<le> 5"
proof -
  obtain r s' where run: "predefined_cypher failing_graph example_registry (VDict 2) example_state = (r, s')"
    by (cases "predefined_cypher failing_graph example_registry (VDict 2) example_state") blast
  from predefined_cypher_frame [OF run example_wf] run show ?thesis by auto
qed


theorem predefined_cypher_int_limit_witness:
  "\<exists>s'. predefined_cypher example_graph example_registry (VDict 2) big_int_state = (Inl int_str_limit_error, s') \<and>
     mem s' = mem big_int_state @ [[]]"
proof -
  have wf: "wf_heap (mem big_int_state)" by (simp add: wf_heap_def wf_dict_def)
  show ?thesis
    by (rule predefined_cypher_int_limit [OF wf, of 2 1 0 "VStr ''id''" "10 ^ int_max_str_digits"])
       (simp_all add: dict_abs_def)
qed

theorem predefined_cypher_stdout_witness:
  "\<exists>s' tn tb stmt rows. predefined_cypher example_graph example_registry (VDict 2) example_state = (Inr example_hit_output, s') \<and>
     py_str (mem example_state @ [[]]) (VDict 1) = Inr tb \<and>
     tb = ''{'query': 'find_person', 'parameters': {'id': 42}}'' \<and>
     stdout s' = ''statement_name'' @ CHR '' '' # tn @ [CHR 0x0A] @ ''params'' @ CHR '' '' # tb @ [CHR 0x0A] @
      ''statement'' @ CHR '' '' # (case stmt of None \<Rightarrow> ''None'' | Some t \<Rightarrow> t) @ [CHR 0x0A] @
      (case stmt of None \<Rightarrow> [] | Some t \<Rightarrow> ''records: '' @ graph_records_str example_graph rows @ [CHR 0x0A])"
proof -
  obtain s' where run: "predefined_cypher example_graph example_registry (VDict 2) example_state =
      (Inr example_hit_output, s')" using example_hit_run by blast
  have tb: "py_str (mem example_state @ [[]]) (VDict 1) = Inr ''{'query': 'find_person', 'parameters': {'id': 42}}''"
    by code_simp
  have bag: "field_or (mem example_state ! 2) ''query_parameters'' (VDict (length (mem example_state))) = VDict 1"
    by (simp add: field_or_def dict_abs_def)
  from predefined_cypher_stdout [OF run] bag obtain tn tb' stmt rows where
    tb': "py_str (mem example_state @ [[]]) (VDict 1) = Inr tb'" and
    out: "stdout s' = stdout example_state @ ''statement_name'' @ CHR '' '' # tn @ [CHR 0x0A] @ ''params'' @ CHR '' '' # tb' @ [CHR 0x0A] @
      ''statement'' @ CHR '' '' # (case stmt of None \<Rightarrow> ''None'' | Some t \<Rightarrow> t) @ [CHR 0x0A] @
      (case stmt of None \<Rightarrow> [] | Some t \<Rightarrow> ''records: '' @ graph_records_str example_graph rows @ [CHR 0x0A])"
    by auto
  from tb tb' have "tb' = ''{'query': 'find_person', 'parameters': {'id': 42}}''" by simp
  with run tb' out show ?thesis by (intro exI [of _ s'] exI [of _ tn] exI [of _ tb'] exI [of _ stmt] exI [of _ rows]) simp
qed

end
