(* ===== verification/PyTypes.thy ===== *)
theory PyTypes
  imports PyValue
begin

text \<open>
  Runtime types of values, the way the type hints of the node and its state classes read
  them: \<open>Any\<close>, the scalar types, \<open>List[t]\<close>, \<open>Dict[k, v]\<close> and \<open>TypedDict\<close>s
  whose fields may be missing (the node reads every field with \<open>.get\<close> and a default).
  \<open>has_type h t v\<close> checks a value against a type on the heap h, recursively on the
  type, so it terminates on cyclic data too. As in Python, a \<open>bool\<close> is an \<open>int\<close>.
\<close>

datatype pytype =
    TAny
  | TNone
  | TBool
  | TInt
  | TStr
  | TList pytype
  | TDict pytype pytype
  | TTypedDict "(string \<times> pytype) list"

fun has_type :: "heap \<Rightarrow> pytype \<Rightarrow> pyval \<Rightarrow> bool" where
  "has_type h TAny v = wf_val h v"
| "has_type h TNone v = (v = VNone)"
| "has_type h TBool v = (case v of VBool _ \<Rightarrow> True | _ \<Rightarrow> False)"
| "has_type h TInt v = (case v of VInt _ \<Rightarrow> True | VBool _ \<Rightarrow> True | _ \<Rightarrow> False)"
| "has_type h TStr v = (case v of VStr _ \<Rightarrow> True | _ \<Rightarrow> False)"
| "has_type h (TList t) v = (case v of VList vs \<Rightarrow> (\<forall>x \<in> set vs. has_type h t x) | _ \<Rightarrow> False)"
| "has_type h (TDict tk tv) v =
     (case v of
        VDict a \<Rightarrow> a < length h \<and> (\<forall>(k, x) \<in> set (h ! a). has_type h tk k \<and> has_type h tv x)
      | _ \<Rightarrow> False)"
| "has_type h (TTypedDict fs) v =
     (case v of
        VDict a \<Rightarrow> a < length h \<and>
          (\<forall>(f, t) \<in> set fs. case dict_abs (h ! a) (VStr f) of None \<Rightarrow> True | Some x \<Rightarrow> has_type h t x)
      | _ \<Rightarrow> False)"

lemma has_type_TStr_iff: "has_type h TStr v \<longleftrightarrow> (\<exists>s. v = VStr s)"
  by (cases v) simp_all

lemma has_type_TTypedDictD:
  "has_type h (TTypedDict fs) (VDict a) \<Longrightarrow> (f, t) \<in> set fs \<Longrightarrow> dict_abs (h ! a) (VStr f) = Some x \<Longrightarrow>
   has_type h t x"
  by fastforce

end
