(* ===== verification/NodeTypes.thy ===== *)
theory NodeTypes
  imports PredefinedCypher PyTypes
begin

text \<open>
  The types of the node's input and output. \<open>PredefinedCypherInputState\<close> (in
  \<open>components/state.py\<close>, not among the sources) is modelled from the spec's data model:
  a \<open>task\<close> and a \<open>query_name\<close> string and the \<open>query_parameters\<close> bag, which
  holds the registry key \<open>query\<close> and the \<open>parameters\<close> dict from names to
  arbitrary values. After the node, the bag the output echoes has string bindings only.
\<close>

definition query_parameters_type :: pytype where
  "query_parameters_type = TTypedDict [(''query'', TStr), (''parameters'', TDict TStr TAny)]"

definition input_state_type :: pytype where
  "input_state_type =
     TTypedDict [(''task'', TStr), (''query_name'', TStr), (''query_parameters'', query_parameters_type)]"

definition output_parameters_type :: pytype where
  "output_parameters_type = TTypedDict [(''query'', TStr), (''parameters'', TDict TStr TStr)]"

lemma str_case_is_str: "(case v of VStr _ \<Rightarrow> True | _ \<Rightarrow> False) = is_str v"
  by (cases v) simp_all

lemma has_type_TStr_is_str: "has_type h TStr v = is_str v"
  by (simp add: str_case_is_str)

text \<open>A field that holds a string, or is missing, stays so through the coercion.\<close>

lemma coerced_str_field:
  assumes "\<forall>b. b \<noteq> q \<longrightarrow> h' ! b = h ! b" and "map fst (h' ! q) = map fst (h ! q)"
    and "\<forall>j < length (h ! q). is_str (snd (h ! q ! j)) \<longrightarrow> h' ! q ! j = h ! q ! j"
    and "case dict_abs (h ! a) k of None \<Rightarrow> True | Some x \<Rightarrow> is_str x"
  shows "case dict_abs (h' ! a) k of None \<Rightarrow> True | Some x \<Rightarrow> is_str x"
  using assms(4) coerced_field_str [OF assms(1-3), of a k] coerced_field_None [OF assms(1-3), of a k]
  by (cases "dict_abs (h ! a) k") auto

lemma str_field_or:
  "case dict_abs d (VStr k) of None \<Rightarrow> True | Some x \<Rightarrow> is_str x \<Longrightarrow> is_str (field_or d k (VStr s))"
  by (simp add: field_or_def split: option.splits)

lemma typed_field_str:
  "has_type h (TTypedDict fs) (VDict a) \<Longrightarrow> (f, TStr) \<in> set fs \<Longrightarrow>
   case dict_abs (h ! a) (VStr f) of None \<Rightarrow> True | Some x \<Rightarrow> is_str x"
  by (auto simp: str_case_is_str split: option.splits dest: has_type_TTypedDictD)

text \<open>The bindings dict after the coercion: string keys, as before, and string values.\<close>

lemma coerced_bindings_typed:
  assumes "has_type h (TDict TStr TAny) (VDict Q)" and "Q < length h'"
    and "map fst (h' ! Q) = map fst (h ! Q)" and "list_all (\<lambda>(k, v). is_str v) (h' ! Q)"
  shows "has_type h' (TDict TStr TStr) (VDict Q)"
proof -
  have "\<forall>k \<in> set (map fst (h' ! Q)). is_str k"
    using assms(1,3) by (auto simp: str_case_is_str)
  with assms(2,4) show ?thesis by (auto simp: str_case_is_str list_all_iff)
qed

lemma has_type_TDict_str_any: "has_type h (TDict TStr TStr) v \<Longrightarrow> has_type h (TDict TStr TAny) v"
proof (cases v)
  case (VDict a)
  assume "has_type h (TDict TStr TStr) v"
  with VDict show ?thesis by (auto simp: str_case_is_str elim!: is_str.elims)
qed simp_all


text \<open>
  C13. Type preservation: a run on a request of type \<open>PredefinedCypherInputState\<close>,
  on a stratified heap (as JSON decoding builds it), returns an output whose \<open>task\<close> is a
  string and whose echoed \<open>parameters\<close> bag has a string \<open>query\<close> and a
  \<open>Dict[str, str]\<close> of bindings: the type the database call expects, now visible in the
  caller's own state.
\<close>

theorem predefined_cypher_typed:
  assumes run: "predefined_cypher g reg (VDict st) s = (Inr out, s')" and wf: "wf_heap (mem s)"
    and strat: "strat_heap (mem s)" and typed: "has_type (mem s) input_state_type (VDict st)"
  shows "\<exists>c. cyphers out = [c] \<and> has_type (mem s') TStr (task c) \<and>
             has_type (mem s') output_parameters_type (parameters c)"
proof (rule predefined_cypher_run [OF run wf], goal_cases)
  case (1 P q stmt errs rows tsk)
  let ?h = "mem s @ [[], []]"
  note frame = 1(7) and keys = 1(8) and keep = 1(10)
  have hst: "?h ! st = mem s ! st" using 1(1) by (simp add: nth_append)
  have "case dict_abs (?h ! st) (VStr ''task'') of None \<Rightarrow> True | Some x \<Rightarrow> is_str x"
    using typed_field_str [OF typed [unfolded input_state_type_def], of "''task''"] hst by simp
  from coerced_str_field [OF frame keys keep this] have task: "is_str tsk"
    using 1(14) by (simp add: str_field_or)
  have params: "has_type (mem s') output_parameters_type (VDict P)"
  proof (cases "dict_abs (mem s ! st) (VStr ''query_parameters'')")
    case None
    with 1(2) have P: "P = length (mem s)" by (simp add: field_or_def)
    with 1(3) have "q = Suc (length (mem s))" by (simp add: field_or_def dict_abs_def)
    with P frame have "mem s' ! P = []" by simp
    with P 1(5) show ?thesis by (simp add: output_parameters_type_def dict_abs_def)
  next
    case (Some v)
    with typed have tv: "has_type (mem s) query_parameters_type v"
      by (auto simp: input_state_type_def dest: has_type_TTypedDictD)
    from Some 1(2) have vP: "v = VDict P" by (simp add: field_or_def)
    with tv have Pl: "P < length (mem s)" by (simp add: query_parameters_type_def)
    then have hP: "?h ! P = mem s ! P" and h1P: "(mem s @ [[]]) ! P = mem s ! P" by (simp_all add: nth_append)
    have "case dict_abs (?h ! P) (VStr ''query'') of None \<Rightarrow> True | Some x \<Rightarrow> is_str x"
      using typed_field_str [OF tv [unfolded vP query_parameters_type_def], of "''query''"] hP by simp
    from coerced_str_field [OF frame keys keep this]
    have query: "case dict_abs (mem s' ! P) (VStr ''query'') of None \<Rightarrow> True | Some x \<Rightarrow> is_str x" .
    have pars: "case dict_abs (mem s' ! P) (VStr ''parameters'') of
        None \<Rightarrow> True | Some x \<Rightarrow> has_type (mem s') (TDict TStr TStr) x"
    proof (cases "dict_abs (mem s ! P) (VStr ''parameters'')")
      case None
      from coerced_field_None [OF frame keys keep, of P] None hP show ?thesis by simp
    next
      case (Some w)
      with tv vP have tw: "has_type (mem s) (TDict TStr TAny) w"
        by (auto simp: query_parameters_type_def dest: has_type_TTypedDictD)
      then obtain Q where wQ: "w = VDict Q" by (cases w) auto
      with tw have Ql: "Q < length (mem s)" by simp
      from Some wQ 1(3) h1P have qQ: "q = Q" by (simp add: field_or_def)
      from Some wQ obtain k' where "(k', VDict Q) \<in> set (mem s ! P)" by (auto dest: dict_abs_SomeD)
      from strat_heapD [OF strat Pl this, of Q] have "Q < P" by simp
      with frame qQ hP have same: "mem s' ! P = mem s ! P" by auto
      have "has_type (mem s') (TDict TStr TStr) (VDict Q)"
        by (rule coerced_bindings_typed [OF tw [unfolded wQ]])
           (use 1(5,8,9) qQ Ql in \<open>simp_all add: nth_append\<close>)
      with same Some wQ show ?thesis by simp
    qed
    from query pars Pl 1(5) show ?thesis
      by (simp add: output_parameters_type_def str_case_is_str split: option.splits)
  qed
  from 1(13) task params show ?case by (simp add: node_output_def str_case_is_str)
qed


theorem predefined_cypher_typed_witness:
  "\<exists>s'. predefined_cypher example_graph example_registry (VDict 2) example_state = (Inr example_hit_output, s') \<and>
     (\<exists>c. cyphers example_hit_output = [c] \<and> has_type (mem s') TStr (task c) \<and>
        has_type (mem s') output_parameters_type (parameters c))"
proof -
  obtain s' where run: "predefined_cypher example_graph example_registry (VDict 2) example_state =
      (Inr example_hit_output, s')" using example_hit_run by blast
  have strat: "strat_heap (mem example_state)" by code_simp
  have typed: "has_type (mem example_state) input_state_type (VDict 2)"
    by (simp add: input_state_type_def query_parameters_type_def dict_abs_def)
  from predefined_cypher_typed [OF run example_wf strat typed] run show ?thesis by blast
qed

text \<open>
  C12. Without stratification the output type is lost: when the bag's \<open>parameters\<close> entry
  is the bag itself, a run on a request of the input type returns an output whose echoed bag
  holds a string, the \<open>str()\<close> of the bag, where the bindings dict was, so the bag is
  no longer of the output type. This is why C13 assumes a stratified heap.
\<close>

theorem predefined_cypher_self_aliased_untyped:
  assumes run: "predefined_cypher g reg (VDict st) s = (Inr out, s')" and wf: "wf_heap (mem s)"
    and typed: "has_type (mem s) input_state_type (VDict st)"
    and bag: "dict_abs (mem s ! st) (VStr ''query_parameters'') = Some (VDict P)"
    and self: "dict_abs (mem s ! P) (VStr ''parameters'') = Some (VDict P)"
  shows "map parameters (cyphers out) = [VDict P] \<and>
    (\<exists>x. dict_abs (mem s' ! P) (VStr ''parameters'') = Some (VStr x)) \<and>
    \<not> has_type (mem s') output_parameters_type (VDict P)"
proof (rule predefined_cypher_run [OF run wf], goal_cases)
  case (1 P' q stmt errs rows tsk)
  have Pl: "P < length (mem s)" by (rule field_or_VDict_wf [OF wf 1(1) bag])
  from 1(2) bag have P': "P' = P" by (simp add: field_or_def)
  with 1(3) self Pl have q: "q = P" by (simp add: field_or_def nth_append)
  have "dict_abs ((mem s @ [[], []]) ! P) (VStr ''parameters'') = Some (VDict P)"
    using self Pl by (simp add: nth_append)
  from coerced_field_is_str [OF 1(8) 1(9) this [folded q]] q
  obtain x where x: "dict_abs (mem s' ! P) (VStr ''parameters'') = Some (VStr x)" by auto
  then have "\<not> has_type (mem s') output_parameters_type (VDict P)"
    by (simp add: output_parameters_type_def)
  with x 1(13) P' show ?case by (auto simp: node_output_def)
qed

theorem predefined_cypher_self_aliased_untyped_witness:
  "\<exists>out s'. predefined_cypher example_graph example_registry (VDict 1)
      \<lparr>mem = [[(VStr ''query'', VStr ''find_person''), (VStr ''parameters'', VDict 0)],
              [(VStr ''task'', VStr ''who''), (VStr ''query_name'', VStr ''find_person''),
               (VStr ''query_parameters'', VDict 0)]], stdout = []\<rparr> = (Inr out, s') \<and>
     map parameters (cyphers out) = [VDict 0] \<and> \<not> has_type (mem s') output_parameters_type (VDict 0)"
proof -
  let ?s = "\<lparr>mem = [[(VStr ''query'', VStr ''find_person''), (VStr ''parameters'', VDict 0)],
              [(VStr ''task'', VStr ''who''), (VStr ''query_name'', VStr ''find_person''),
               (VStr ''query_parameters'', VDict 0)]], stdout = []\<rparr>"
  have "\<not> isl (fst (predefined_cypher example_graph example_registry (VDict 1) ?s))" by code_simp
  then obtain out where "fst (predefined_cypher example_graph example_registry (VDict 1) ?s) = Inr out"
    by (cases "fst (predefined_cypher example_graph example_registry (VDict 1) ?s)") auto
  from fst_eq_pair [OF this] obtain s' where run:
    "predefined_cypher example_graph example_registry (VDict 1) ?s = (Inr out, s')" by blast
  have wf: "wf_heap (mem ?s)" and typed: "has_type (mem ?s) input_state_type (VDict 1)"
    by (simp_all add: wf_heap_def wf_dict_def input_state_type_def query_parameters_type_def dict_abs_def)
  from predefined_cypher_self_aliased_untyped [OF run wf typed] run show ?thesis
    by (auto simp: dict_abs_def)
qed

end
