(* ===== verification/DispatchSpec.thy ===== *)
theory DispatchSpec
  imports NodeTypes
begin

text \<open>
  The abstract specification of one dispatch (spec section 4.2): a request is received,
  looked up in the registry, then either executed or failed, and finally one outcome is
  emitted. The request is seen as the spec's \<open>QueryRequest\<close>: the task, the query
  name as text, the registry key, the echoed bag and the bindings as the string-valued
  mapping the database facility receives. \<open>dispatch_step\<close> is the state machine, over
  any registry and any query facility, and \<open>dispatch_outcome\<close> the same dispatch
  as a function, with the database fault as \<open>Inl\<close>. \<open>abstract_request\<close> reads this view off the caller's heap; the
  refinement theorem shows that every run of the code is a run of the machine.
\<close>

record areq =
  a_task :: pyval
  a_name :: string
  a_key :: pyval
  a_params :: pyval
  a_bindings :: dictobj

datatype 'r dphase =
    Received areq
  | LookedUp areq "string option"
  | Executed areq string "'r list"
  | FailedLookup areq
  | Emitted "'r node_update"

inductive dispatch_step ::
    "registry \<Rightarrow> (string \<Rightarrow> dictobj \<Rightarrow> exn + 'r list) \<Rightarrow> 'r dphase \<Rightarrow> 'r dphase \<Rightarrow> bool"
  for reg :: registry and query :: "string \<Rightarrow> dictobj \<Rightarrow> exn + 'r list" where
  lookup: "dispatch_step reg query (Received r) (LookedUp r (case a_key r of VStr k \<Rightarrow> reg k | _ \<Rightarrow> None))"
| execute: "query t (a_bindings r) = Inr rows \<Longrightarrow> dispatch_step reg query (LookedUp r (Some t)) (Executed r t rows)"
| miss: "dispatch_step reg query (LookedUp r None) (FailedLookup r)"
| emit_hit: "dispatch_step reg query (Executed r t rows) (Emitted (node_output (a_task r) (Some t) (a_params r) [] rows))"
| emit_miss:
    "dispatch_step reg query (FailedLookup r)
       (Emitted (node_output (a_task r) None (a_params r) [lookup_error (a_name r)] []))"

text \<open>
  The spec's view of the request in the caller's heap: the bag at \<open>query_parameters\<close>
  (a fresh empty dict when missing), its key and its bindings, each value as its
  \<open>str()\<close>.
\<close>

definition abstract_request :: "heap \<Rightarrow> addr \<Rightarrow> exn + areq" where
  "abstract_request h st =
     (let bag = field_or (h ! st) ''query_parameters'' (VDict (length h));
          bd = (case bag of VDict P \<Rightarrow> if P < length h then h ! P else [] | _ \<Rightarrow> []);
          pars = field_or bd ''parameters'' (VDict (Suc (length h)))
      in sbind (case pars of
                  VDict Q \<Rightarrow> if Q < length h then str_values h (h ! Q) else Inr []
                | v \<Rightarrow> Inl (no_attribute_error v ''items'')) (\<lambda>b.
         sbind (py_str h (field_or (h ! st) ''query_name'' (VStr ''''))) (\<lambda>n.
         Inr \<lparr>a_task = field_or (h ! st) ''task'' (VStr ''''), a_name = n,
              a_key = field_or bd ''query'' VNone, a_params = bag, a_bindings = b\<rparr>)))"

text \<open>
  The machine's outcome as a function: the emitted update, or the fault of the
  registered statement's execution. It is the denotation of \<open>dispatch_step\<close>.
\<close>

definition dispatch_outcome ::
    "registry \<Rightarrow> (string \<Rightarrow> dictobj \<Rightarrow> exn + 'r list) \<Rightarrow> areq \<Rightarrow> exn + 'r node_update" where
  "dispatch_outcome reg query r =
     (case (case a_key r of VStr k \<Rightarrow> reg k | _ \<Rightarrow> None) of
        None \<Rightarrow> Inr (node_output (a_task r) None (a_params r) [lookup_error (a_name r)] [])
      | Some t \<Rightarrow> sbind (query t (a_bindings r)) (\<lambda>rows.
          Inr (node_output (a_task r) (Some t) (a_params r) [] rows)))"

code_pred dispatch_step .


lemma field_or_cases:
  "field_or d k dflt = v \<Longrightarrow> dict_abs d (VStr k) = Some v \<or> (dict_abs d (VStr k) = None \<and> v = dflt)"
  by (auto simp: field_or_def split: option.splits)

lemma strat_field_below:
  "strat_heap h \<Longrightarrow> a < length h \<Longrightarrow> dict_abs (h ! a) k = Some (VDict b) \<Longrightarrow> b < a"
  by (auto dest!: dict_abs_SomeD intro: strat_heapD [of h a _ _ b])

text \<open>
  Where the request's objects sit: the bag P is the state's own dict or the fresh one at
  the end of the heap, the bindings dict q is the bag's dict or the second fresh one, and
  on a stratified heap they lie below the state.
\<close>

lemma request_layout:
  assumes wf: "wf_heap (mem s)" and strat: "strat_heap (mem s)" and typed: "has_type (mem s) input_state_type (VDict st)"
    and st: "st < length (mem s)"
    and bag: "field_or (mem s ! st) ''query_parameters'' (VDict (length (mem s))) = VDict P"
    and pars: "field_or ((mem s @ [[]]) ! P) ''parameters'' (VDict (Suc (length (mem s)))) = VDict q"
  obtains "P < st" "q < P"
    "dict_abs (mem s ! P) (VStr ''parameters'') = Some (VDict q)"
    "case dict_abs (mem s ! P) (VStr ''query'') of None \<Rightarrow> True | Some x \<Rightarrow> is_str x"
  | "P < st" "dict_abs (mem s ! P) (VStr ''parameters'') = None" "q = Suc (length (mem s))"
    "case dict_abs (mem s ! P) (VStr ''query'') of None \<Rightarrow> True | Some x \<Rightarrow> is_str x"
  | "P = length (mem s)" "q = Suc (length (mem s))"
proof (cases "dict_abs (mem s ! st) (VStr ''query_parameters'')")
  case None
  with bag have P: "P = length (mem s)" by (simp add: field_or_def)
  with pars have "q = Suc (length (mem s))" by (simp add: field_or_def dict_abs_def)
  with P that(3) show ?thesis by blast
next
  case (Some v)
  with bag have v: "v = VDict P" by (simp add: field_or_def)
  with Some strat st have Pst: "P < st" by (blast intro: strat_field_below)
  with st have Pl: "P < length (mem s)" by simp
  from typed Some v have tv: "has_type (mem s) query_parameters_type (VDict P)"
    by (auto simp: input_state_type_def dest: has_type_TTypedDictD)
  have qk: "case dict_abs (mem s ! P) (VStr ''query'') of None \<Rightarrow> True | Some x \<Rightarrow> is_str x"
    using typed_field_str [OF tv [unfolded query_parameters_type_def], of "''query''"] by simp
  from pars Pl have pars': "field_or (mem s ! P) ''parameters'' (VDict (Suc (length (mem s)))) = VDict q"
    by (simp add: nth_append)
  from field_or_cases [OF pars'] show ?thesis
  proof
    assume pq: "dict_abs (mem s ! P) (VStr ''parameters'') = Some (VDict q)"
    with strat Pl have "q < P" by (blast intro: strat_field_below)
    with Pst pq qk that(1) show ?thesis by blast
  next
    assume "dict_abs (mem s ! P) (VStr ''parameters'') = None \<and> VDict q = VDict (Suc (length (mem s)))"
    with Pst qk that(2) show ?thesis by auto
  qed
qed


lemma registry_get_str_field:
  "case dict_abs d (VStr k) of None \<Rightarrow> True | Some x \<Rightarrow> is_str x \<Longrightarrow>
   registry_get reg (field_or d k VNone) = Inr (case field_or d k VNone of VStr k' \<Rightarrow> reg k' | _ \<Rightarrow> None)"
proof (cases "dict_abs d (VStr k)")
  case (Some x)
  moreover assume "case dict_abs d (VStr k) of None \<Rightarrow> True | Some x \<Rightarrow> is_str x"
  ultimately show ?thesis by (cases x) (simp_all add: field_or_def registry_get_def)
qed (simp add: field_or_def registry_get_def)

text \<open>A request of the input type has dicts for its bag and its bindings, present or defaulted.\<close>

lemma typed_request_dicts:
  assumes typed: "has_type (mem s) input_state_type (VDict st)"
  obtains P Q where "st < length (mem s)"
    "field_or (mem s ! st) ''query_parameters'' (VDict (length (mem s))) = VDict P"
    "field_or ((mem s @ [[]]) ! P) ''parameters'' (VDict (Suc (length (mem s)))) = VDict Q"
proof -
  from typed have st: "st < length (mem s)" by (simp add: input_state_type_def)
  show ?thesis
  proof (cases "dict_abs (mem s ! st) (VStr ''query_parameters'')")
    case None
    then show ?thesis
      using that [OF st, of "length (mem s)" "Suc (length (mem s))"] by (simp add: field_or_def dict_abs_def)
  next
    case (Some v)
    with typed have tv: "has_type (mem s) query_parameters_type v"
      by (auto simp: input_state_type_def dest: has_type_TTypedDictD)
    then obtain P where vP: "v = VDict P" and Pl: "P < length (mem s)"
      by (cases v) (auto simp: query_parameters_type_def)
    have "\<exists>Q. field_or (mem s ! P) ''parameters'' (VDict (Suc (length (mem s)))) = VDict Q"
    proof (cases "dict_abs (mem s ! P) (VStr ''parameters'')")
      case (Some w)
      with tv vP have "has_type (mem s) (TDict TStr TAny) w"
        by (auto simp: query_parameters_type_def dest: has_type_TTypedDictD)
      with Some show ?thesis by (cases w) (auto simp: field_or_def)
    qed (simp add: field_or_def)
    with Some vP Pl that [OF st, of P] show ?thesis by (auto simp: field_or_def nth_append)
  qed
qed

text \<open>The request as the code sees it after the coercion, in terms of the abstract request.\<close>

lemma request_view:
  assumes wf: "wf_heap (mem s)" and strat: "strat_heap (mem s)" and typed: "has_type (mem s) input_state_type (VDict st)"
    and st: "st < length (mem s)"
    and bag: "field_or (mem s ! st) ''query_parameters'' (VDict (length (mem s))) = VDict P"
    and pars: "field_or ((mem s @ [[]]) ! P) ''parameters'' (VDict (Suc (length (mem s)))) = VDict q"
    and frame: "\<forall>b. b \<noteq> q \<longrightarrow> h' ! b = (mem s @ [[], []]) ! b"
    and keys: "map fst (h' ! q) = map fst ((mem s @ [[], []]) ! q)"
    and ci: "coerce_items q (length ((mem s @ [[], []]) ! q)) 0 (mem s @ [[], []]) = (Inr (), h')"
    and abs: "abstract_request (mem s) st = Inr r"
  shows "h' ! q = a_bindings r \<and> a_params r = VDict P \<and> a_task r = field_or (h' ! st) ''task'' (VStr '''') \<and>
    field_or (mem s ! st) ''query_name'' (VStr '''') = VStr (a_name r) \<and> a_key r = field_or (h' ! P) ''query'' VNone \<and>
    registry_get reg (field_or (h' ! P) ''query'' VNone) = Inr (case a_key r of VStr k \<Rightarrow> reg k | _ \<Rightarrow> None)"
proof -
  let ?h = "mem s @ [[], []]" and ?bd = "if P < length (mem s) then mem s ! P else []"
  have wfh: "wf_heap ?h" and strath: "strat_heap ?h"
    using wf_heap_snoc_empty [OF wf_heap_snoc_empty [OF wf]]
      strat_heap_snoc_empty [OF strat_heap_snoc_empty [OF strat]] by simp_all
  from request_layout [OF wf strat typed st bag pars]
  have lay: "q \<noteq> st \<and> q \<noteq> P \<and> (q < length (mem s) \<or> q = Suc (length (mem s))) \<and>
      (P < length (mem s) \<or> P = length (mem s)) \<and>
      (case dict_abs ?bd (VStr ''query'') of None \<Rightarrow> True | Some x \<Rightarrow> is_str x)"
    by cases (use st in \<open>auto simp: dict_abs_def\<close>)
  have hP: "h' ! P = ?bd" and h1P: "(mem s @ [[]]) ! P = ?bd" and hst: "h' ! st = mem s ! st"
    using lay st frame by (auto simp: nth_append)
  from pars h1P have pars': "field_or ?bd ''parameters'' (VDict (Suc (length (mem s)))) = VDict q" by simp
  from abs bag pars' obtain b n where
    bq: "(if q < length (mem s) then str_values (mem s) (mem s ! q) else Inr []) = Inr b" and
    nm: "py_str (mem s) (field_or (mem s ! st) ''query_name'' (VStr '''')) = Inr n" and
    r: "r = \<lparr>a_task = field_or (mem s ! st) ''task'' (VStr ''''), a_name = n,
             a_key = field_or ?bd ''query'' VNone, a_params = VDict P, a_bindings = b\<rparr>"
    by (auto simp: abstract_request_def Let_def)
  have bind: "h' ! q = b"
  proof (cases "q < length (mem s)")
    case True
    with bq have sv: "str_values (mem s) (mem s ! q) = Inr b" by simp
    from True have qh: "q < length ?h" and hq: "?h ! q = mem s ! q" by (simp_all add: nth_append)
    from wf_heap_nth [OF wf True] have "list_all (\<lambda>(k, v). wf_val (mem s) v) (mem s ! q)"
      by (auto simp: wf_dict_def list_all_iff)
    with sv hq have sv': "str_values ?h (?h ! q) = Inr b" by (simp add: str_values_extend [OF wf])
    have "\<forall>(k, v) \<in> set (?h ! q). \<not> reaches ?h v q"
      using strat_heap_no_self_reach [OF strath qh] by blast
    from coerce_items_refines [OF wfh qh, of "[]" "?h ! q" 0 "length (?h ! q)" ?h] this sv' ci
    have "h' = ?h[q := b]" by simp
    with qh show ?thesis by simp
  next
    case False
    with lay bq have "b = []" and "q = Suc (length (mem s))" by simp_all
    with keys show ?thesis by (simp add: nth_append)
  qed
  from typed_field_str [OF typed [unfolded input_state_type_def], of "''query_name''"]
  have "is_str (field_or (mem s ! st) ''query_name'' (VStr ''''))" by (simp add: str_field_or)
  with nm have nv: "field_or (mem s ! st) ''query_name'' (VStr '''') = VStr n"
    by (cases "field_or (mem s ! st) ''query_name'' (VStr '''')") (simp_all add: py_str_def)
  from registry_get_str_field [of ?bd "''query''" reg] lay hP
  have "registry_get reg (field_or (h' ! P) ''query'' VNone) = Inr (case a_key r of VStr k \<Rightarrow> reg k | _ \<Rightarrow> None)"
    by (simp add: r)
  with bind nv hst hP r show ?thesis by simp
qed

text \<open>What a run of the code computes, in terms of the abstract request.\<close>

lemma predefined_cypher_abstract:
  assumes run: "predefined_cypher g reg (VDict st) s = (Inr out, s')" and wf: "wf_heap (mem s)"
    and strat: "strat_heap (mem s)" and typed: "has_type (mem s) input_state_type (VDict st)"
    and abs: "abstract_request (mem s) st = Inr r"
  shows "\<exists>stmt errs rows. out = node_output (a_task r) stmt (a_params r) errs rows \<and>
     stmt = (case a_key r of VStr k \<Rightarrow> reg k | _ \<Rightarrow> None) \<and>
     (case stmt of
        Some t \<Rightarrow> errs = [] \<and> graph_query g t (a_bindings r) = Inr rows
      | None \<Rightarrow> rows = [] \<and> errs = [lookup_error (a_name r)])"
proof (rule predefined_cypher_run [OF run wf], goal_cases)
  case (1 P q stmt errs rows tsk)
  from request_view [OF wf strat typed 1(1,2,3,7,8,15) abs, of reg] 1(11)
  have v: "mem s' ! q = a_bindings r" "a_params r = VDict P" "a_task r = tsk"
    "field_or (mem s ! st) ''query_name'' (VStr '''') = VStr (a_name r)"
    "stmt = (case a_key r of VStr k \<Rightarrow> reg k | _ \<Rightarrow> None)"
    using 1(14) by auto
  show ?case
  proof (intro exI conjI)
    show "out = node_output (a_task r) stmt (a_params r) errs rows" using 1(13) v by simp
    show "stmt = (case a_key r of VStr k \<Rightarrow> reg k | _ \<Rightarrow> None)" by (rule v(5))
    show "case stmt of Some t \<Rightarrow> errs = [] \<and> graph_query g t (a_bindings r) = Inr rows
        | None \<Rightarrow> rows = [] \<and> errs = [lookup_error (a_name r)]"
      using 1(12) v(1,4) by (cases stmt) (auto simp: py_str_def)
  qed
qed


text \<open>
  C22. Refinement of the spec's state machine: on a well-typed request over a stratified
  heap, every run of the code that returns is a run of \<open>dispatch_step\<close> from the
  received request to the emission of exactly the code's output. The lookup uses the
  request's key, the execution gets the request's values as strings, and the miss message
  names the request's \<open>query_name\<close>.
\<close>

theorem predefined_cypher_refines_dispatch:
  assumes run: "predefined_cypher g reg (VDict st) s = (Inr out, s')" and wf: "wf_heap (mem s)"
    and strat: "strat_heap (mem s)" and typed: "has_type (mem s) input_state_type (VDict st)"
    and abs: "abstract_request (mem s) st = Inr r"
  shows "(dispatch_step reg (graph_query g))\<^sup>*\<^sup>* (Received r) (Emitted out)"
proof -
  from predefined_cypher_abstract [OF run wf strat typed abs] obtain stmt errs rows where
    out: "out = node_output (a_task r) stmt (a_params r) errs rows" and
    stmt: "stmt = (case a_key r of VStr k \<Rightarrow> reg k | _ \<Rightarrow> None)" and
    br: "case stmt of Some t \<Rightarrow> errs = [] \<and> graph_query g t (a_bindings r) = Inr rows
         | None \<Rightarrow> rows = [] \<and> errs = [lookup_error (a_name r)]"
    by blast
  have s1: "dispatch_step reg (graph_query g) (Received r) (LookedUp r stmt)"
    unfolding stmt by (rule dispatch_step.lookup)
  show ?thesis
  proof (cases stmt)
    case None
    with br out have "dispatch_step reg (graph_query g) (FailedLookup r) (Emitted out)"
      by (simp add: dispatch_step.emit_miss)
    with s1 None show ?thesis
      by (meson dispatch_step.miss converse_rtranclp_into_rtranclp rtranclp.rtrancl_refl)
  next
    case (Some t)
    with br have "dispatch_step reg (graph_query g) (LookedUp r (Some t)) (Executed r t rows)"
      by (simp add: dispatch_step.execute)
    moreover from Some br out have "dispatch_step reg (graph_query g) (Executed r t rows) (Emitted out)"
      by (simp add: dispatch_step.emit_hit)
    ultimately show ?thesis using s1 Some
      by (meson converse_rtranclp_into_rtranclp rtranclp.rtrancl_refl)
  qed
qed

subsection \<open>The claims on the example request\<close>

abbreviation example_request :: areq where
  "example_request \<equiv>
     \<lparr>a_task = VStr ''who'', a_name = ''find_person'', a_key = VStr ''find_person'', a_params = VDict 1,
      a_bindings = [(VStr ''id'', VStr ''42'')]\<rparr>"

lemma example_abstract_request: "abstract_request (mem example_state) 2 = Inr example_request"
  by code_simp

theorem predefined_cypher_refines_dispatch_witness:
  "\<exists>s'. predefined_cypher example_graph example_registry (VDict 2) example_state = (Inr example_hit_output, s') \<and>
     (dispatch_step example_registry (graph_query example_graph))\<^sup>*\<^sup>* (Received example_request)
       (Emitted example_hit_output)"
proof -
  obtain s' where run: "predefined_cypher example_graph example_registry (VDict 2) example_state =
      (Inr example_hit_output, s')" using example_hit_run by blast
  have strat: "strat_heap (mem example_state)" by code_simp
  have typed: "has_type (mem example_state) input_state_type (VDict 2)"
    by (simp add: input_state_type_def query_parameters_type_def dict_abs_def)
  from predefined_cypher_refines_dispatch [OF run example_wf strat typed example_abstract_request] run
  show ?thesis by blast
qed

end
