(* ===== verification/Invocations.thy ===== *)
theory Invocations
  imports DispatchSpec
begin

text \<open>
  Invocations of the node. The code computes the spec's outcome function exactly: on a
  well-typed request over a stratified heap, \<open>predefined_cypher\<close> returns
  \<open>dispatch_outcome\<close> of the abstract request, the database fault included. From
  the heap after a run the same request is again in the node's domain, so a re-invocation
  returns the same result. \<open>run_sequence\<close> is the orchestrator's sequential use of the
  node (spec section 5) over one shared heap: the requests are invoked in order, and the
  first exception stops the sequence. Requests that share objects interfere, because the
  node coerces the caller's parameters dict in place.
\<close>

text \<open>Invoking the node on each request in turn, over one heap.\<close>

primrec run_sequence :: "'r graph \<Rightarrow> registry \<Rightarrow> pyval list \<Rightarrow> 'r node_update list pym" where
  "run_sequence g reg [] = ret []"
| "run_sequence g reg (x # xs) =
     bindE (create_predefined_cypher_node g reg x) (\<lambda>out.
     bindE (run_sequence g reg xs) (\<lambda>outs. ret (out # outs)))"

abbreviation shared_heap :: heap where
  "shared_heap \<equiv>
     [[(VStr ''id'', VInt 42)],
      [(VStr ''query'', VStr ''find_person''), (VStr ''parameters'', VDict 0)],
      [(VStr ''query'', VStr ''find_person''), (VStr ''parameters'', VDict 1)],
      [(VStr ''task'', VStr ''outer''), (VStr ''query_name'', VStr ''find_person''), (VStr ''query_parameters'', VDict 2)],
      [(VStr ''task'', VStr ''inner''), (VStr ''query_name'', VStr ''find_person''), (VStr ''query_parameters'', VDict 1)]]"

lemma predefined_cypher_dispatch_run:
  assumes wf: "wf_heap (mem s)" and ints: "heap_ints_ok (mem s)" and strat: "strat_heap (mem s)"
    and typed: "has_type (mem s) input_state_type (VDict st)" and abs: "abstract_request (mem s) st = Inr r"
  obtains P Q s' where
    "predefined_cypher g reg (VDict st) s = (dispatch_outcome reg (graph_query g) r, s')"
    "mem s' = (mem s @ [[], []])[Q := a_bindings r]" "wf_heap (mem s')" "heap_ints_ok (mem s')"
    "st < length (mem s)"
    "field_or (mem s ! st) ''query_parameters'' (VDict (length (mem s))) = VDict P"
    "field_or ((mem s @ [[]]) ! P) ''parameters'' (VDict (Suc (length (mem s)))) = VDict Q"
    "Q < length (mem s) + 2" "list_all (\<lambda>(k, v). is_str v) (a_bindings r)"
    "map fst (a_bindings r) = map fst ((mem s @ [[], []]) ! Q)"
    "a_params r = VDict P" "a_task r = field_or (mem s' ! st) ''task'' (VStr '''')"
    "a_key r = field_or (mem s' ! P) ''query'' VNone"
    "field_or (mem s ! st) ''query_name'' (VStr '''') = VStr (a_name r)"
proof -
  obtain P Q where st: "st < length (mem s)"
    and bag: "field_or (mem s ! st) ''query_parameters'' (VDict (length (mem s))) = VDict P"
    and pars: "field_or ((mem s @ [[]]) ! P) ''parameters'' (VDict (Suc (length (mem s)))) = VDict Q"
    by (rule typed_request_dicts [OF typed])
  show ?thesis
  proof (rule predefined_cypher_prefix_gen [OF wf ints st bag pars, where g = g and reg = reg], goal_cases)
    case (1 s2)
    let ?stmt = "case a_key r of VStr k \<Rightarrow> reg k | _ \<Rightarrow> None"
    let ?n = "field_or (mem s ! st) ''query_name'' (VStr '''')"
    from request_view [OF wf strat typed st bag pars 1(7,8,11) abs, of reg]
    have v: "mem s2 ! Q = a_bindings r" "a_params r = VDict P" "a_task r = field_or (mem s2 ! st) ''task'' (VStr '''')"
      "?n = VStr (a_name r)" "a_key r = field_or (mem s2 ! P) ''query'' VNone"
      and rg: "registry_get reg (field_or (mem s2 ! P) ''query'' VNone) = Inr ?stmt"
      by auto
    have P2: "P < length (mem s2)" using 1(4,5) by simp
    have "hashable (field_or (mem s2 ! P) ''query'' VNone)"
      using rg by (simp add: registry_get_def split: if_splits)
    from lookup_statement_ok [OF P2 this, of reg] rg obtain s3 where
      look: "lookup_statement reg P s2 = (Inr ?stmt, s3)" and m3: "mem s3 = mem s2"
      by auto
    have tk: "dict_get (mem s') st (VStr ''task'') (VStr '''') = Inr (a_task r)" if "mem s' = mem s2" for s'
      using that 1(4) st v(3) by (simp add: dict_get_Inr field_or_def)
    have pre: "predefined_cypher g reg (VDict st) s =
      bindE (execute_statement g ?n (VDict Q) ?stmt) (\<lambda>(errs, rows).
      bindE (\<lambda>s. (dict_get (mem s) st (VStr ''task'') (VStr ''''), s)) (\<lambda>tsk.
      ret (node_output tsk ?stmt (a_params r) errs rows))) s3"
      using 1(1) look v(2) by (simp add: bindE_def)
    have Q3: "Q < length (mem s3)" using 1(4,6) m3 by simp
    from execute_statement_outcome [OF Q3, of "a_bindings r" g "a_name r" ?stmt] v(1,4) m3
    obtain s' where exe: "execute_statement g ?n (VDict Q) ?stmt s3 =
        (case ?stmt of None \<Rightarrow> Inr ([lookup_error (a_name r)], [])
                     | Some t \<Rightarrow> map_sum id (\<lambda>rows. ([], rows)) (graph_query g t (a_bindings r)), s')"
      and m': "mem s' = mem s2" by auto
    have run: "predefined_cypher g reg (VDict st) s = (dispatch_outcome reg (graph_query g) r, s')"
      using pre exe tk [OF m']
      by (cases ?stmt; cases "graph_query g (the ?stmt) (a_bindings r)")
         (simp_all add: bindE_def ret_def dispatch_outcome_def)
    have "mem s2 = (mem s @ [[], []])[Q := a_bindings r]"
      by (rule nth_equalityI) (use 1(4,6,7) v(1) in \<open>auto simp: nth_list_update\<close>)
    with run m' 1(2,3,6,8,9) v that [OF run _ _ _ st bag pars] show ?case by simp
  qed
qed

lemma abstract_request_total:
  assumes wf: "wf_heap (mem s)" and ints: "heap_ints_ok (mem s)" and typed: "has_type (mem s) input_state_type (VDict st)"
  shows "\<exists>r. abstract_request (mem s) st = Inr r"
proof -
  obtain P Q where st: "st < length (mem s)"
    and bag: "field_or (mem s ! st) ''query_parameters'' (VDict (length (mem s))) = VDict P"
    and pars: "field_or ((mem s @ [[]]) ! P) ''parameters'' (VDict (Suc (length (mem s)))) = VDict Q"
    by (rule typed_request_dicts [OF typed])
  have P: "P < Suc (length (mem s))"
    using bag field_or_VDict_wf [OF wf st, of "''query_parameters''" P]
    by (cases "dict_abs (mem s ! st) (VStr ''query_parameters'')") (auto simp: field_or_def)
  let ?bd = "if P < length (mem s) then mem s ! P else []"
  from pars P have pars': "field_or ?bd ''parameters'' (VDict (Suc (length (mem s)))) = VDict Q"
    by (auto simp: nth_append)
  have "\<exists>b. (if Q < length (mem s) then str_values (mem s) (mem s ! Q) else Inr []) = Inr b"
  proof (cases "Q < length (mem s)")
    case True
    have "list_all (\<lambda>(k, v). wf_val (mem s) v \<and> ints_ok v) (mem s ! Q)"
      using wf_heap_nth [OF wf True] heap_ints_ok_nth [OF ints True]
      by (auto simp: wf_dict_def list_all_iff)
    from str_values_ok [OF wf ints this] True show ?thesis by simp
  qed simp
  moreover from typed_field_str [OF typed [unfolded input_state_type_def], of "''query_name''"]
  have "is_str (field_or (mem s ! st) ''query_name'' (VStr ''''))" by (simp add: str_field_or)
  then have "\<exists>n. py_str (mem s) (field_or (mem s ! st) ''query_name'' (VStr '''')) = Inr n"
    by (cases "field_or (mem s ! st) ''query_name'' (VStr '''')") (simp_all add: py_str_def)
  ultimately show ?thesis using bag pars' by (auto simp: abstract_request_def Let_def)
qed

text \<open>Where the request's objects sit after a run, when the request carries its bag.\<close>

lemma rerun_layout:
  assumes wf: "wf_heap (mem s)" and strat: "strat_heap (mem s)" and typed: "has_type (mem s) input_state_type (VDict st)"
    and st: "st < length (mem s)"
    and bag: "field_or (mem s ! st) ''query_parameters'' (VDict (length (mem s))) = VDict P"
    and pars: "field_or ((mem s @ [[]]) ! P) ''parameters'' (VDict (Suc (length (mem s)))) = VDict Q"
    and bagp: "dict_abs (mem s ! st) (VStr ''query_parameters'') \<noteq> None"
    and h': "h' = (mem s @ [[], []])[Q := b]" and keys: "map fst b = map fst ((mem s @ [[], []]) ! Q)"
  shows "P < st \<and> Q \<noteq> st \<and> Q \<noteq> P \<and> h' ! st = mem s ! st \<and> h' ! P = mem s ! P \<and>
    Q < length h' \<and> h' ! Q = b \<and> length h' = length (mem s) + 2 \<and>
    (dict_abs (mem s ! P) (VStr ''parameters'') = Some (VDict Q) \<and> Q < P \<or>
     dict_abs (mem s ! P) (VStr ''parameters'') = None \<and> Q = Suc (length (mem s)) \<and> b = [])"
proof -
  have Pl: "P < length (mem s)"
    using bagp bag field_or_VDict_wf [OF wf st, of "''query_parameters''" P] by (auto simp: field_or_def)
  from request_layout [OF wf strat typed st bag pars] Pl show ?thesis
  proof cases
    case 1
    with st h' show ?thesis by (auto simp: nth_append)
  next
    case 2
    with st h' keys show ?thesis by (auto simp: nth_append)
  qed simp
qed

lemma typed_rerun:
  assumes typed: "has_type h input_state_type (VDict st)" and len: "length h \<le> length h'"
    and hst: "h' ! st = h ! st" and bag: "dict_abs (h ! st) (VStr ''query_parameters'') = Some (VDict P)"
    and hP: "h' ! P = h ! P"
    and binds: "\<And>Q. dict_abs (h ! P) (VStr ''parameters'') = Some (VDict Q) \<Longrightarrow>
       Q < length h' \<and> map fst (h' ! Q) = map fst (h ! Q) \<and> list_all (\<lambda>(k, v). is_str v) (h' ! Q)"
  shows "has_type h' input_state_type (VDict st)"
proof -
  from typed bag have tP: "has_type h query_parameters_type (VDict P)"
    by (auto simp: input_state_type_def dest: has_type_TTypedDictD)
  have pars: "case dict_abs (h' ! P) (VStr ''parameters'') of
      None \<Rightarrow> True | Some x \<Rightarrow> has_type h' (TDict TStr TAny) x"
  proof (cases "dict_abs (h ! P) (VStr ''parameters'')")
    case (Some w)
    with tP have tw: "has_type h (TDict TStr TAny) w"
      by (auto simp: query_parameters_type_def dest: has_type_TTypedDictD)
    then obtain Q where wQ: "w = VDict Q" by (cases w) auto
    from binds [of Q] Some wQ have "Q < length h'" "map fst (h' ! Q) = map fst (h ! Q)"
      "list_all (\<lambda>(k, v). is_str v) (h' ! Q)" by auto
    from has_type_TDict_str_any [OF coerced_bindings_typed [OF tw [unfolded wQ] this]]
    have "has_type h' (TDict TStr TAny) (VDict Q)" .
    with Some wQ hP show ?thesis by simp
  qed (simp add: hP)
  have query: "case dict_abs (h' ! P) (VStr ''query'') of None \<Rightarrow> True | Some x \<Rightarrow> is_str x"
    using typed_field_str [OF tP [unfolded query_parameters_type_def], of "''query''"] hP by simp
  from tP len have "P < length h'" by (simp add: query_parameters_type_def)
  with pars query have "has_type h' query_parameters_type (VDict P)"
    by (simp add: query_parameters_type_def str_case_is_str split: option.splits)
  moreover have "case dict_abs (h' ! st) (VStr ''task'') of None \<Rightarrow> True | Some x \<Rightarrow> is_str x"
    and "case dict_abs (h' ! st) (VStr ''query_name'') of None \<Rightarrow> True | Some x \<Rightarrow> is_str x"
    using typed_field_str [OF typed [unfolded input_state_type_def]] hst by simp_all
  moreover from typed len have "st < length h'" by (simp add: input_state_type_def)
  ultimately show ?thesis using bag hst
    by (auto simp: input_state_type_def str_case_is_str split: option.splits)
qed

lemma predefined_cypher_rerun_pre:
  assumes wf: "wf_heap (mem s)" and ints: "heap_ints_ok (mem s)" and strat: "strat_heap (mem s)"
    and typed: "has_type (mem s) input_state_type (VDict st)" and abs: "abstract_request (mem s) st = Inr r"
    and bagp: "dict_abs (mem s ! st) (VStr ''query_parameters'') \<noteq> None"
    and run: "predefined_cypher g reg (VDict st) s = (res, s1)"
  shows "res = dispatch_outcome reg (graph_query g) r \<and> wf_heap (mem s1) \<and> heap_ints_ok (mem s1) \<and>
    strat_heap (mem s1) \<and> has_type (mem s1) input_state_type (VDict st) \<and> abstract_request (mem s1) st = Inr r \<and>
    mem s1 ! st = mem s ! st"
proof (rule predefined_cypher_dispatch_run [OF wf ints strat typed abs, where g = g and reg = reg], goal_cases)
  case (1 P Q s')
  let ?h = "mem s @ [[], []]" and ?b = "a_bindings r"
  from run 1(1) have res: "res = dispatch_outcome reg (graph_query g) r" and s1: "s1 = s'" by simp_all
  from 1(2) s1 have h1: "mem s1 = ?h[Q := ?b]" by simp
  from rerun_layout [OF wf strat typed 1(5,6,7) bagp h1 1(10)]
  have lay: "P < st" "Q \<noteq> st" "Q \<noteq> P" "mem s1 ! st = mem s ! st" "mem s1 ! P = mem s ! P"
    "Q < length (mem s1)" "mem s1 ! Q = ?b" "length (mem s1) = length (mem s) + 2"
    "dict_abs (mem s ! P) (VStr ''parameters'') = Some (VDict Q) \<and> Q < P \<or>
     dict_abs (mem s ! P) (VStr ''parameters'') = None \<and> Q = Suc (length (mem s)) \<and> ?b = []"
    by auto
  from bagp 1(6) have bagP: "dict_abs (mem s ! st) (VStr ''query_parameters'') = Some (VDict P)"
    by (auto simp: field_or_def)
  have Pl: "P < length (mem s)" using lay(1) 1(5) by simp
  have "strat_heap ?h" using strat_heap_snoc_empty [OF strat_heap_snoc_empty [OF strat]] by simp
  from strat_heap_update_strs [OF this _ 1(10,9)] 1(8) h1 have strat1: "strat_heap (mem s1)" by simp
  have binds: "Q' < length (mem s1) \<and> map fst (mem s1 ! Q') = map fst (mem s ! Q') \<and>
      list_all (\<lambda>(k, v). is_str v) (mem s1 ! Q')"
    if "dict_abs (mem s ! P) (VStr ''parameters'') = Some (VDict Q')" for Q'
  proof -
    from that lay(9) have "Q' = Q" and "Q < P" by auto
    with lay(6,7) 1(9,10) Pl show ?thesis by (simp add: nth_append)
  qed
  have typed1: "has_type (mem s1) input_state_type (VDict st)"
    by (rule typed_rerun [OF typed _ lay(4) bagP lay(5) binds]) (simp add: lay(8))
  have bag1: "field_or (mem s1 ! st) ''query_parameters'' (VDict (length (mem s1))) = VDict P"
    using bagP lay(4) by (simp add: field_or_def)
  have bd1: "(if P < length (mem s1) then mem s1 ! P else []) = mem s ! P"
    using lay(5,8) Pl by simp
  have b1: "(case field_or (mem s ! P) ''parameters'' (VDict (Suc (length (mem s1)))) of
      VDict Q' \<Rightarrow> if Q' < length (mem s1) then str_values (mem s1) (mem s1 ! Q') else Inr []
    | v \<Rightarrow> Inl (no_attribute_error v ''items'')) = Inr ?b"
    using lay(6,7,9) 1(9) by (auto simp: field_or_def str_values_strs_id)
  have n1: "py_str (mem s1) (field_or (mem s1 ! st) ''query_name'' (VStr '''')) = Inr (a_name r)"
    using lay(4) 1(14) by (simp add: py_str_def)
  have r: "r = \<lparr>a_task = field_or (mem s1 ! st) ''task'' (VStr ''''), a_name = a_name r,
      a_key = field_or (mem s ! P) ''query'' VNone, a_params = VDict P, a_bindings = ?b\<rparr>"
    using 1(11,12,13) s1 lay(5) by simp
  have "abstract_request (mem s1) st = Inr r"
    by (subst r) (simp add: abstract_request_def Let_def bag1 bd1 b1 n1 del: dispatch_outcome_def)
  with res 1(3,4) s1 strat1 typed1 lay(4) show ?thesis by simp
qed

text \<open>
  C23. Functional refinement of the spec (sections 4.2 and 9): on a well-formed,
  stratified heap with no int over the digit limit, the node run on a request of the input
  type returns exactly \<open>dispatch_outcome\<close> of the abstract request: the outcome on a
  hit or a miss, and on a database fault the same exception. So the code is the spec's
  explicit result type, with \<open>Inl\<close> as the propagated fault.
\<close>

theorem predefined_cypher_computes_dispatch:
  assumes wf: "wf_heap (mem s)" and ints: "heap_ints_ok (mem s)" and strat: "strat_heap (mem s)"
    and typed: "has_type (mem s) input_state_type (VDict st)" and abs: "abstract_request (mem s) st = Inr r"
  shows "\<exists>s'. predefined_cypher g reg (VDict st) s = (dispatch_outcome reg (graph_query g) r, s')"
  by (rule predefined_cypher_dispatch_run [OF assms, where g = g and reg = reg]) blast

text \<open>
  C24. Re-invocation: when the request carries its \<open>query_parameters\<close> bag, calling
  the node again on the state the first call left returns the same result, output or
  exception. The first call has already coerced the bindings in place, and coercion is
  idempotent on strings.
\<close>

theorem predefined_cypher_rerun:
  assumes wf: "wf_heap (mem s)" and ints: "heap_ints_ok (mem s)" and strat: "strat_heap (mem s)"
    and typed: "has_type (mem s) input_state_type (VDict st)"
    and bagp: "dict_abs (mem s ! st) (VStr ''query_parameters'') \<noteq> None"
    and run: "predefined_cypher g reg (VDict st) s = (res, s1)"
  shows "\<exists>s2. predefined_cypher g reg (VDict st) s1 = (res, s2)"
proof -
  obtain r where abs: "abstract_request (mem s) st = Inr r" using abstract_request_total [OF wf ints typed] by blast
  from predefined_cypher_rerun_pre [OF wf ints strat typed abs bagp run]
  have res: "res = dispatch_outcome reg (graph_query g) r" and pre: "wf_heap (mem s1)" "heap_ints_ok (mem s1)"
    "strat_heap (mem s1)" "has_type (mem s1) input_state_type (VDict st)" "abstract_request (mem s1) st = Inr r"
    by auto
  show ?thesis
    by (rule predefined_cypher_dispatch_run [OF pre, where g = g and reg = reg]) (use res in blast)
qed

text \<open>
  C25. A sequence of invocations of the same request returns the same outcome each time,
  or stops at the first invocation with the fault of the database.
\<close>

theorem run_sequence_replicate:
  assumes wf: "wf_heap (mem s)" and ints: "heap_ints_ok (mem s)" and strat: "strat_heap (mem s)"
    and typed: "has_type (mem s) input_state_type (VDict st)" and abs: "abstract_request (mem s) st = Inr r"
    and bagp: "dict_abs (mem s ! st) (VStr ''query_parameters'') \<noteq> None"
  shows "\<exists>s'. run_sequence g reg (replicate (Suc n) (VDict st)) s =
    (map_sum id (replicate (Suc n)) (dispatch_outcome reg (graph_query g) r), s')"
proof -
  let ?o = "dispatch_outcome reg (graph_query g) r"
  define pre where "pre s \<longleftrightarrow> wf_heap (mem s) \<and> heap_ints_ok (mem s) \<and> strat_heap (mem s) \<and>
      has_type (mem s) input_state_type (VDict st) \<and> abstract_request (mem s) st = Inr r \<and>
      dict_abs (mem s ! st) (VStr ''query_parameters'') \<noteq> None" for s :: pystate

  have step: "\<exists>s1. create_predefined_cypher_node g reg (VDict st) s = (?o, s1) \<and> pre s1" if p: "pre s" for s
  proof -
    obtain res s1 where run: "predefined_cypher g reg (VDict st) s = (res, s1)" by fastforce
    from p have "wf_heap (mem s)" "heap_ints_ok (mem s)" "strat_heap (mem s)"
      "has_type (mem s) input_state_type (VDict st)" "abstract_request (mem s) st = Inr r"
      "dict_abs (mem s ! st) (VStr ''query_parameters'') \<noteq> None" by (simp_all add: pre_def)
    from predefined_cypher_rerun_pre [OF this run] this(6) run show ?thesis
      by (auto simp: pre_def create_predefined_cypher_node_def)
  qed
  have "\<exists>s'. run_sequence g reg (replicate (Suc n) (VDict st)) s = (map_sum id (replicate (Suc n)) ?o, s')"
    if "pre s" for s
    using that
  proof (induction n arbitrary: s)
    case 0
    from step [OF 0] obtain s1 where "create_predefined_cypher_node g reg (VDict st) s = (?o, s1)" by blast
    then show ?case by (cases ?o) (simp_all add: bindE_def ret_def)
  next
    case (Suc n)
    from step [OF Suc.prems] obtain s1 where c: "create_predefined_cypher_node g reg (VDict st) s = (?o, s1)"
      and p: "pre s1" by blast
    from Suc.IH [OF p] obtain s2 where
      "run_sequence g reg (replicate (Suc n) (VDict st)) s1 = (map_sum id (replicate (Suc n)) ?o, s2)" by blast
    with c show ?case by (cases ?o) (simp_all add: bindE_def ret_def)
  qed
  then show ?thesis using assms by (simp add: pre_def)
qed

text \<open>
  C20. Invocations that share objects interfere (spec section 5 claims no shared mutable
  state). When the first request's bindings dict is the second request's bag, the first run
  replaces every value of that dict by its \<open>str()\<close>, the bag's \<open>parameters\<close>
  included. The second invocation then raises \<open>AttributeError\<close> at
  \<open>parameters.items()\<close>, whatever it would have done alone: the order of the two
  invocations decides the outcome.
\<close>

theorem run_sequence_shared_bag:
  assumes wf: "wf_heap (mem s)" and ints: "heap_ints_ok (mem s)"
    and run1: "predefined_cypher g reg (VDict st1) s = (Inr out1, s1)"
    and bag1: "dict_abs (mem s ! st1) (VStr ''query_parameters'') = Some (VDict P)"
    and pars1: "dict_abs (mem s ! P) (VStr ''parameters'') = Some (VDict Q)"
    and bag2: "dict_abs (mem s ! st2) (VStr ''query_parameters'') = Some (VDict Q)"
    and inner: "dict_abs (mem s ! Q) (VStr ''parameters'') = Some v"
    and st2: "st2 < length (mem s)" and st2Q: "st2 \<noteq> Q"
  shows "\<exists>x s'. run_sequence g reg [VDict st1, VDict st2] s = (Inl (no_attribute_error (VStr x) ''items''), s')"
proof (rule predefined_cypher_run [OF run1 wf], goal_cases)
  case (1 P' q stmt errs rows tsk)
  let ?h = "mem s @ [[], []]"
  have Pl: "P < length (mem s)" by (rule field_or_VDict_wf [OF wf 1(1) bag1])
  have Ql: "Q < length (mem s)" by (rule field_or_VDict_wf [OF wf Pl pars1])
  from 1(2) bag1 have "P' = P" by (simp add: field_or_def)
  with 1(3) pars1 Pl have q: "q = Q" by (simp add: field_or_def nth_append)
  have "heap_ints_ok ?h" using heap_ints_ok_snoc_empty [OF heap_ints_ok_snoc_empty [OF ints]] by simp
  from heap_ints_ok_coerced [OF this _ 1(7,8,9)] 1(5) have ints1: "heap_ints_ok (mem s1)" by simp
  have st2': "st2 < length (mem s1)" and hst2: "mem s1 ! st2 = mem s ! st2"
    using st2 st2Q 1(5,7) q by (auto simp: nth_append)
  from inner Ql have "dict_abs (?h ! Q) (VStr ''parameters'') = Some v" by (simp add: nth_append)
  from coerced_field_is_str [OF 1(8,9) this [folded q]] q
  obtain x where x: "dict_abs (mem s1 ! Q) (VStr ''parameters'') = Some (VStr x)" by auto
  from read_request_ok [OF 1(6) ints1 st2'] bag2 hst2 obtain s2 where
    rd: "read_request (VDict st2) s1 = (Inr (st2, field_or (mem s ! st2) ''query_name'' (VStr ''''), VDict Q), s2)"
    and m2: "mem s2 = mem s1 @ [[]]"
    by (auto simp: field_or_def)
  have Q2: "Q < length (mem s2)" using Ql 1(5) m2 by simp
  have "dict_get (mem s2 @ [[]]) Q (VStr ''parameters'') (VDict (length (mem s2))) = Inr (VStr x)"
    using x Q2 m2 Ql 1(5) by (simp add: dict_get_Inr nth_append)
  then have "coerce_request (VDict Q) s2 =
      (Inl (no_attribute_error (VStr x) ''items''), s2\<lparr>mem := mem s2 @ [[]]\<rparr>)"
    using Q2 by (simp add: coerce_request_def bindE_def liftE_def dict_method_def alloc_dict_def
        coerce_params_not_dict)
  with rd have "predefined_cypher g reg (VDict st2) s1 =
      (Inl (no_attribute_error (VStr x) ''items''), s2\<lparr>mem := mem s2 @ [[]]\<rparr>)"
    by (simp add: predefined_cypher_def bindE_def)
  with run1 show ?case by (auto simp: create_predefined_cypher_node_def bindE_def)
qed

subsection \<open>The claims on the example request\<close>

lemma example_strat: "strat_heap (mem example_state)"
  by code_simp

lemma example_typed: "has_type (mem example_state) input_state_type (VDict 2)"
  by (simp add: input_state_type_def query_parameters_type_def dict_abs_def)

lemma example_bag: "dict_abs (mem example_state ! 2) (VStr ''query_parameters'') \<noteq> None"
  by (simp add: dict_abs_def)

theorem predefined_cypher_computes_dispatch_witness:
  "\<exists>s'. predefined_cypher failing_graph example_registry (VDict 2) example_state =
     (Inl (DatabaseError ''connection refused''), s')"
proof -
  from predefined_cypher_computes_dispatch [OF example_wf example_ints example_strat example_typed
      example_abstract_request, where g = failing_graph and reg = example_registry]
  show ?thesis by (simp add: dispatch_outcome_def)
qed

theorem predefined_cypher_rerun_witness:
  "\<exists>s1 s2. predefined_cypher example_graph example_registry (VDict 2) example_state = (Inr example_hit_output, s1) \<and>
     predefined_cypher example_graph example_registry (VDict 2) s1 = (Inr example_hit_output, s2)"
proof -
  obtain s1 where run: "predefined_cypher example_graph example_registry (VDict 2) example_state =
      (Inr example_hit_output, s1)" using example_hit_run by blast
  from predefined_cypher_rerun [OF example_wf example_ints example_strat example_typed example_bag run] run
  show ?thesis by blast
qed

theorem run_sequence_replicate_witness:
  "\<exists>s'. run_sequence example_graph example_registry (replicate 3 (VDict 2)) example_state =
     (Inr (replicate 3 example_hit_output), s')"
proof -
  from run_sequence_replicate [OF example_wf example_ints example_strat example_typed example_abstract_request
      example_bag, where g = example_graph and reg = example_registry and n = 2]
  show ?thesis by (simp add: dispatch_outcome_def numeral_3_eq_3)
qed

theorem run_sequence_shared_bag_witness:
  "\<exists>x s'. run_sequence example_graph example_registry [VDict 3, VDict 4] \<lparr>mem = shared_heap, stdout = []\<rparr> =
     (Inl (no_attribute_error (VStr x) ''items''), s') \<and>
   \<not> isl (fst (predefined_cypher example_graph example_registry (VDict 4) \<lparr>mem = shared_heap, stdout = []\<rparr>))"
proof -
  let ?s = "\<lparr>mem = shared_heap, stdout = []\<rparr>"
  have alone: "\<not> isl (fst (predefined_cypher example_graph example_registry (VDict 4) ?s))" by code_simp
  have "\<not> isl (fst (predefined_cypher example_graph example_registry (VDict 3) ?s))" by code_simp
  then obtain out1 where "fst (predefined_cypher example_graph example_registry (VDict 3) ?s) = Inr out1"
    by (cases "fst (predefined_cypher example_graph example_registry (VDict 3) ?s)") auto
  from fst_eq_pair [OF this] obtain s1 where run1:
    "predefined_cypher example_graph example_registry (VDict 3) ?s = (Inr out1, s1)" by blast
  have wf: "wf_heap (mem ?s)" and ints: "heap_ints_ok (mem ?s)" by code_simp+
  from run_sequence_shared_bag [OF wf ints run1, of 2 1 4 "VDict 0"] alone show ?thesis
    by (simp add: dict_abs_def)
qed

end
