(* ===== verification/Spec2Isabelle.thy ===== *)
theory Spec2Isabelle
  imports Invocations
begin

text \<open>
  \<^bold>\<open>The predefined Cypher node, verified.\<close>

  The program is one file,
  \<open>src/llm_backend/app/lg_agent/kg_sub_graph/agentic_rag_agents/components/predefined_cypher/node.py\<close>.
  \<open>create_predefined_cypher_node(graph, predefined_cypher_dict)\<close> (lines 13--82) returns
  the LangGraph node \<open>predefined_cypher(state)\<close> (lines 34--80). The node reads the
  request from the state dict, coerces the values of the request's \<open>parameters\<close> dict to
  strings in place, looks the request's \<open>query\<close> up in the registry, runs the template on
  the Neo4j graph on a hit, and returns one \<open>CypherOutputState\<close> in an update dict. It
  prints four lines on the way. The parts interact through Python objects shared by
  reference: the dict the loop coerces is the caller's dict, and the output echoes it.

  \<^bold>\<open>Theories and what they model.\<close>
  \<^item> \<open>Prelude\<close>: the exception-and-state monad (\<open>ret\<close>, \<open>throw\<close>, \<open>bindE\<close>,
    \<open>sbind\<close>) in which the Python code runs. A computation returns an exception or a value
    together with the state, so the mutations and output made before an exception persist.
  \<^item> \<open>PyValue\<close>: the object model. \<open>pyval\<close> holds None, bool, int, str, lists and
    references to dicts. Dicts are heap objects: \<open>heap\<close> is the list of dict objects, each
    an insertion-ordered entry list. \<open>pystate\<close> is the heap and the standard output.
    The dict operations the node performs are \<open>dict_get\<close> (\<open>d.get(k, default)\<close>),
    \<open>dict_method\<close> (attribute lookup), \<open>dict_setitem\<close> (\<open>d[k] = v\<close>) and
    \<open>alloc_dict\<close> (\<open>dict()\<close> and \<open>{}\<close>). Lookup follows CPython key equality
    (\<open>True == 1\<close>), and an unhashable key raises \<open>TypeError\<close>. \<open>dict_abs\<close> is the
    abstract map of a dict, \<open>wf_heap\<close> the heap invariant, \<open>reaches\<close> reachability
    through references, and \<open>strat_heap\<close> an executable sufficient condition for acyclic
    data (every object refers only to older ones, as JSON decoding builds them).
    \<open>heap_frame h h' q\<close> says that \<open>h'\<close> grows \<open>h\<close> and changes only the
    values of the object at \<open>q\<close>.
  \<^item> \<open>PyStr\<close>: \<open>str\<close> and \<open>repr\<close> (\<open>py_str\<close>, \<open>py_repr\<close>). \<open>str(int)\<close>
    has the 4300-digit limit of CPython 3.11 and later. \<open>repr(str)\<close> chooses its quote
    and escapes non-printable Latin-1 characters. Lists and dicts are rendered
    recursively, with \<open>{...}\<close> for a dict already on the path. Termination is by the
    number of dicts not yet on the path, then by the size of the value.
  \<^item> \<open>PyPrint\<close>: the builtin \<open>print\<close>, writing argument by argument; what was
    written before an exception stays written.
  \<^item> \<open>ParamCoercion\<close>: the loop of lines 51--52 over \<open>parameters.items()\<close>
    (\<open>coerce_items\<close>, \<open>coerce_params\<close>). It includes CPython's
    dict-changed-size check, and terminates by the measure \<open>n - i\<close> over the entry index.
    \<open>str_values\<close> is the comprehension \<open>{k: str(v) for k, v in d.items()}\<close>
    that the loop refines.
  \<^item> \<open>Registry\<close>: \<open>predefined_cypher_dict\<close> as a map from names to templates, and
    \<open>registry_get\<close> (\<open>predefined_cypher_dict.get(key)\<close>, line 54).
  \<^item> \<open>PredefinedCypher\<close>: the node. The stages follow the lines:
    \<open>read_request\<close> (42--47), \<open>coerce_request\<close> (50--52), \<open>lookup_statement\<close>
    (54--55), \<open>execute_statement\<close> (56--64) and \<open>node_output\<close> (66--80).
    \<open>predefined_cypher\<close> composes them, and \<open>create_predefined_cypher_node\<close> is the
    closure. The graph is an interface record: \<open>graph_query\<close> is \<open>Neo4jGraph.query\<close>,
    any function from a template and the bindings to rows or an exception, and every
    theorem holds for every graph. \<open>NO_CYPHER_RESULTS\<close> is the constructor
    \<open>NoCypherResults\<close>.
  \<^item> \<open>PyTypes\<close> and \<open>NodeTypes\<close>: a checker of values against the type hints
    (\<open>has_type\<close>), and the types of the request and of the echoed bag.
  \<^item> \<open>DispatchSpec\<close>: the abstract specification of spec section 4.2. The request
    seen as the spec sees it (\<open>abstract_request\<close>) goes through the state machine
    \<open>dispatch_step\<close>, an inductive relation with \<open>code_pred\<close>, from received to
    looked-up, then executed or failed, then emitted. \<open>dispatch_outcome\<close> is the same
    machine as a function, with the database fault as \<open>Inl\<close>: the explicit result type
    of spec section 9.
  \<^item> \<open>Invocations\<close>: the node as the orchestrator uses it. \<open>run_sequence\<close>
    (modelled from spec section 5) invokes the node on a list of requests in turn over one
    heap, and the first exception stops it. The coroutine has no \<open>await\<close>, and
    \<open>graph.query\<close> is a synchronous call, so every schedule of concurrent invocations
    is such a sequence.

  \<^bold>\<open>What the theorems show\<close> (claims C1--C26, in the text block before each theorem).
  Every claim is a statement about \<open>predefined_cypher\<close>, its coercion loop or its
  invocation, for all inputs its hypotheses describe.
  \<^item> The node's behaviour on every branch, proved from one run lemma
    (\<open>predefined_cypher_run\<close>) that describes every returning run:
    \<^item> a hit (C1) and a miss (C2);
    \<^item> the echo of the caller's own, coerced object (C3);
    \<^item> the bindings the graph receives (C4);
    \<^item> that the node returns (C5);
    \<^item> the uncaught database error (C6) and the \<open>TypeError\<close> of an unhashable query (C7);
    \<^item> the spec's output invariants and where they hold (C8--C10);
    \<^item> that a miss never touches the graph (C11);
    \<^item> type preservation on stratified requests (C13), and its loss when the bag is its own
      parameters dict (C12).
  \<^item> The coercion loop (C14--C18): refinement of the in-place loop to the comprehension when
    no entry reaches the dict itself, totality within the digit limit, the result shape,
    the only exceptions, and idempotence.
  \<^item> Error paths and output (C19, C21): an int over the digit limit in the bindings raises
    \<open>ValueError\<close> at the \<open>print\<close> of line 47, before any coercion (C19); the
    four lines written on the terminal by every returning run, the bag shown as it was before
    the coercion (C21).
  \<^item> The specification (C22, C23): every returning run on a typed, acyclic request is a run of
    the spec's state machine (C22), and on such a request within the digit limit the node
    returns exactly \<open>dispatch_outcome\<close> of the abstract request, the propagated fault
    included (C23). The proof runs the node forward through the stages; the heap after the
    run is the input heap with two fresh dicts and the bindings dict replaced by its string
    image. The spec machine's emission uses the code's \<open>node_output\<close>, so the shape of
    the output is pinned by C1, C2 and C9 rather than by C22 and C23.
  \<^item> Invocations (C20, C24, C25): from the heap a run leaves, the request is again typed,
    stratified and has the same abstract view, so a re-invocation returns the same result
    (C24), and a sequence of invocations of one request returns one outcome per call (C25, by
    induction on the length). These two rest on the graph being a function of the template
    and the bindings. Requests that share a dict are not independent: when the first
    request's bindings dict is the second's bag, the second invocation raises (C20).
  \<^item> The side effect (C26), on every outcome, exceptions included: a run writes into one
    existing object at most, the parameters dict it coerces, keeping its keys
    (\<open>heap_frame\<close>), and allocates at most the two default dicts of lines 44 and 50.
    The output dicts of lines 66--79 are values of the model, not heap objects. The proof
    composes one frame lemma per stage.
  Each theorem with a hypothesis has a witness that applies it to a concrete request.
  The example request (\<open>example_state\<close> in \<open>PredefinedCypher\<close>) is spec scenario A.

  \<^bold>\<open>Bounds and fuel.\<close> No fuel is used. Every loop of the code is a terminating
  function:
  \<^item> the coercion loop runs over the entries it found at the start, checking the size;
  \<^item> \<open>repr\<close> terminates by the measure above, on cyclic data too;
  \<^item> \<open>has_type\<close> is recursive on the type;
  \<^item> \<open>run_sequence\<close> is primitive recursive on the list of requests.
  The only numeric bound is \<open>int_max_str_digits = 4300\<close>, CPython's default
  (\<open>int_repr_limit\<close>: \<open>str(i)\<close> raises exactly when \<open>|i| \<ge> 10^4300\<close>). The
  liveness and refinement theorems (C5, C23--C25) assume no int of the heap exceeds it
  (\<open>heap_ints_ok\<close>); C19 shows what happens when one does. A run keeps this
  condition, since it only writes strings.

  \<^bold>\<open>Not modelled.\<close> Every statement of \<open>node.py\<close> after the imports is
  modelled. What remains lies outside the file or outside this repository:
  \<^item> The Neo4j driver's transport and Cypher semantics, beyond the interface above.
  \<^item> The LangGraph orchestrator beyond the sequential invocation above: the merge of the
    update into the pipeline state and the scheduler live outside this repository.
  \<^item> The imports of lines 4, 9 and 10, which the node never uses.
  \<^item> \<open>CypherOutputState\<close>, \<open>NO_CYPHER_RESULTS\<close> and
    \<open>PredefinedCypherInputState\<close>, which live outside the sources; they are modelled
    from the spec's data model.
  \<^item> Python values beyond those a request carries: no floats, tuples or sets. Lists are
    values rather than heap objects, so only dicts can alias.
  \<^item> The event loop. The coroutine has no \<open>await\<close>, so it runs in one step.
\<close>

end
